theory Spec2Isabelle
  imports Main "HOL-Library.Word" "HOL-Library.Char_ord" "HOL-Library.List_Lexorder"
    "HOL-Library.Multiset" "HOL-Library.Sublist"
begin

unbundle bit_operations_syntax

section \<open>framegen: the frame packer of src/build/framegen/main.c\<close>

text \<open>
  The program scans a directory for \<^verbatim>\<open>.txt\<close> frame files, sorts their names, reads
  every file, joins the contents with the separator byte, compresses the joined buffer
  with zlib's raw DEFLATE and writes the result. The model follows \<^verbatim>\<open>main.c\<close> function by
  function. What the program takes from its environment (directory streams, files, the
  allocator, zlib, the output device) is a field of the record \<open>world\<close>; the two branches
  of \<^verbatim>\<open>#ifdef _WIN32\<close> are the two values of \<open>platform\<close>.
\<close>

subsection \<open>Bytes, C strings and the C library\<close>

type_synonym byte = "8 word"

text \<open>\<^verbatim>\<open>#define SEPARATOR '\x01'\<close>\<close>

definition SEPARATOR :: byte where
  "SEPARATOR = 0x01"

text \<open>
  A C string is the list of its bytes before the terminating NUL, so it holds no NUL
  byte itself: \<open>c_string\<close> says so. File names are C strings.
\<close>

definition c_string :: "string \<Rightarrow> bool" where
  "c_string s = (CHR 0x00 \<notin> set s)"

text \<open>
  \<^verbatim>\<open>strcmp\<close> of the C library: the difference of the first two bytes that differ, read as
  \<^verbatim>\<open>unsigned char\<close>; the end of a list is the terminating NUL (byte 0).
\<close>

fun strcmp :: "string \<Rightarrow> string \<Rightarrow> int" where
  "strcmp [] [] = 0"
| "strcmp [] (b # bs) = 0 - of_char b"
| "strcmp (a # as) [] = of_char a - 0"
| "strcmp (a # as) (b # bs) = (if a = b then strcmp as bs else of_char a - of_char b)"

text \<open>
  \<^verbatim>\<open>snprintf(buf, cap, ...)\<close>: the formatted text, cut to \<open>cap - 1\<close> bytes.
\<close>

definition snprintf :: "nat \<Rightarrow> string \<Rightarrow> string" where
  "snprintf cap text = take (cap - 1) text"

subsection \<open>Directory entries: the POSIX branch\<close>

datatype d_type = DT_REG | DT_DIR | DT_LNK | DT_UNKNOWN

record dirent =
  d_name :: string
  d_type :: d_type

text \<open>
  \<^verbatim>\<open>
  static int filter_frames(const struct dirent *entry) {
      const char *name = entry->d_name;
      size_t len = strlen(name);
      return len > 4 && strcmp(name + len - 4, ".txt") == 0;
  }
  \<close>
\<close>

definition filter_frames :: "dirent \<Rightarrow> int" where
  "filter_frames entry =
     (let name = d_name entry; len = length name
      in if len > 4 \<and> strcmp (drop (len - 4) name) ''.txt'' = 0 then 1 else 0)"

text \<open>
  \<^verbatim>\<open>
  static int compare_frames(const struct dirent **a, const struct dirent **b) {
      return strcmp((*a)->d_name, (*b)->d_name);
  }
  \<close>
\<close>

definition compare_frames :: "dirent \<Rightarrow> dirent \<Rightarrow> int" where
  "compare_frames a b = strcmp (d_name a) (d_name b)"

text \<open>
  \<^verbatim>\<open>scandir\<close> of the C library, as POSIX describes it: it reads the directory stream, keeps
  the entries for which the filter returns non-zero, sorts them with \<^verbatim>\<open>qsort\<close> under the
  comparison function and returns their number, or \<open>-1\<close> when the directory cannot be
  read. \<^verbatim>\<open>qsort\<close> is modelled as an insertion sort that calls the comparison function;
  the directory stream is \<open>None\<close> when the directory cannot be opened, else the entries in
  the order the system yields them.
\<close>

fun qsort_insert :: "('a \<Rightarrow> 'a \<Rightarrow> int) \<Rightarrow> 'a \<Rightarrow> 'a list \<Rightarrow> 'a list" where
  "qsort_insert compar x [] = [x]"
| "qsort_insert compar x (y # ys) =
     (if compar x y \<le> 0 then x # y # ys else y # qsort_insert compar x ys)"

definition qsort :: "('a \<Rightarrow> 'a \<Rightarrow> int) \<Rightarrow> 'a list \<Rightarrow> 'a list" where
  "qsort compar xs = foldr (qsort_insert compar) xs []"

definition scandir ::
  "dirent list option \<Rightarrow> (dirent \<Rightarrow> int) \<Rightarrow> (dirent \<Rightarrow> dirent \<Rightarrow> int) \<Rightarrow> int \<times> dirent list"
where
  "scandir stream sel compar =
     (case stream of
        None \<Rightarrow> (- 1, [])
      | Some entries \<Rightarrow>
          (let namelist = qsort compar (filter (\<lambda>e. sel e \<noteq> 0) entries)
           in (int (length namelist), namelist)))"

subsection \<open>Directory entries: the Windows branch\<close>

record WIN32_FIND_DATAA =
  dwFileAttributes :: "32 word"
  cFileName :: string

definition FILE_ATTRIBUTE_DIRECTORY :: "32 word" where
  "FILE_ATTRIBUTE_DIRECTORY = 0x10"

text \<open>
  \<^verbatim>\<open>FindFirstFileA(pattern, &fd)\<close>: the search for a pattern is the list of the entries the
  system finds for it (\<open>None\<close> when the directory cannot be searched). The call returns
  \<^verbatim>\<open>INVALID_HANDLE_VALUE\<close> (here \<open>None\<close>) when the search cannot be made and also when
  it finds no entry; otherwise it gives the first entry and a handle on the rest, which
  \<^verbatim>\<open>FindNextFileA\<close> yields one by one.
\<close>

definition FindFirstFileA ::
  "WIN32_FIND_DATAA list option \<Rightarrow> (WIN32_FIND_DATAA \<times> WIN32_FIND_DATAA list) option"
where
  "FindFirstFileA search =
     (case search of
        None \<Rightarrow> None
      | Some [] \<Rightarrow> None
      | Some (fd # h) \<Rightarrow> Some (fd, h))"

text \<open>
  The \<^verbatim>\<open>do { ... } while (FindNextFileA(h, &fd))\<close> loop of \<^verbatim>\<open>scandir_txt\<close>: a directory is
  skipped, any other name is appended. The growth of the array by \<^verbatim>\<open>realloc\<close> does not
  change its contents and is left out; \<^verbatim>\<open>malloc\<close>, \<^verbatim>\<open>realloc\<close> and \<^verbatim>\<open>strdup\<close>, whose
  results the function does not test, are taken to succeed here.
\<close>

fun find_loop :: "WIN32_FIND_DATAA \<Rightarrow> WIN32_FIND_DATAA list \<Rightarrow> string list \<Rightarrow> string list" where
  "find_loop fd [] names =
     (if dwFileAttributes fd AND FILE_ATTRIBUTE_DIRECTORY \<noteq> 0 then names
      else names @ [cFileName fd])"
| "find_loop fd (fd' # h) names =
     find_loop fd' h
       (if dwFileAttributes fd AND FILE_ATTRIBUTE_DIRECTORY \<noteq> 0 then names
        else names @ [cFileName fd])"

text \<open>
  \<^verbatim>\<open>
  for (int i = 0; i < count - 1; i++)
      for (int j = i + 1; j < count; j++)
          if (strcmp(names[i], names[j]) > 0) {
              char *tmp = names[i]; names[i] = names[j]; names[j] = tmp;
          }
  \<close>
  The variable \<^verbatim>\<open>count\<close> is \<open>cnt\<close> here.
\<close>

function sort_inner :: "nat \<Rightarrow> nat \<Rightarrow> nat \<Rightarrow> string list \<Rightarrow> string list" where
  "sort_inner cnt i j names =
     (if j < cnt then
        sort_inner cnt i (j + 1)
          (if strcmp (names ! i) (names ! j) > 0
           then names[i := names ! j, j := names ! i] else names)
      else names)"
  by pat_completeness auto
termination
  by (relation "measure (\<lambda>(cnt, i, j, names). cnt - j)") auto

function sort_outer :: "nat \<Rightarrow> nat \<Rightarrow> string list \<Rightarrow> string list" where
  "sort_outer cnt i names =
     (if i + 1 < cnt then sort_outer cnt (i + 1) (sort_inner cnt i (i + 1) names)
      else names)"
  by pat_completeness auto
termination
  by (relation "measure (\<lambda>(cnt, i, names). cnt - i)") auto

text \<open>
  \<^verbatim>\<open>static int scandir_txt(const char *dir, char ***out_names)\<close>, given the search for
  \<^verbatim>\<open>"<dir>\*.txt"\<close>.
\<close>

definition scandir_txt :: "WIN32_FIND_DATAA list option \<Rightarrow> int \<times> string list" where
  "scandir_txt search =
     (case FindFirstFileA search of
        None \<Rightarrow> (- 1, [])
      | Some (fd, h) \<Rightarrow>
          (let names = find_loop fd h [];
               cnt = length names
           in (int cnt, sort_outer cnt 0 names)))"

subsection \<open>The environment\<close>

text \<open>
  A stream opened with \<^verbatim>\<open>fopen(path, "rb")\<close>: \<open>s_size\<close> is what \<^verbatim>\<open>ftell\<close> reports after
  \<^verbatim>\<open>fseek(f, 0, SEEK_END)\<close>, as the \<^verbatim>\<open>size_t\<close> that \<^verbatim>\<open>malloc\<close> and \<^verbatim>\<open>fread\<close> receive;
  \<open>s_data\<close> are the bytes \<^verbatim>\<open>fread\<close> can deliver from the start of the file. For a regular
  file read without error, \<open>s_size\<close> is the length of \<open>s_data\<close>.
\<close>

record stream =
  s_size :: nat
  s_data :: "byte list"

text \<open>The allocations of the program, by the place that makes them.\<close>

datatype alloc_site =
    ReadBuffer string
  | FrameContents
  | FrameSizes
  | Joined
  | Compressed

text \<open>
  The arguments of \<^verbatim>\<open>deflateInit2\<close> after the stream (\<open>zmethod\<close> is zlib's \<^verbatim>\<open>method\<close>).
\<close>

record deflate_params =
  level :: int
  zmethod :: int
  windowBits :: int
  memLevel :: int
  strategy :: int

text \<open>The constants of \<^verbatim>\<open>zlib.h\<close> that \<^verbatim>\<open>main\<close> names, with the values zlib gives them.\<close>

definition Z_OK :: int where "Z_OK = 0"
definition Z_STREAM_END :: int where "Z_STREAM_END = 1"
definition Z_FINISH :: int where "Z_FINISH = 4"
definition Z_DEFAULT_COMPRESSION :: int where "Z_DEFAULT_COMPRESSION = - 1"
definition Z_DEFLATED :: int where "Z_DEFLATED = 8"
definition MAX_WBITS :: int where "MAX_WBITS = 15"
definition Z_DEFAULT_STRATEGY :: int where "Z_DEFAULT_STRATEGY = 0"

text \<open>
  \<^verbatim>\<open>uInt\<close>, the type of \<^verbatim>\<open>avail_in\<close> and \<^verbatim>\<open>avail_out\<close> in zlib's \<^verbatim>\<open>z_stream\<close>, is
  \<^verbatim>\<open>unsigned int\<close>: 32 bits. An assignment from \<^verbatim>\<open>size_t\<close> or \<^verbatim>\<open>uLong\<close> keeps the
  value modulo \<open>2 ^ 32\<close>.
\<close>

definition to_uInt :: "nat \<Rightarrow> nat" where
  "to_uInt n = n mod 2 ^ 32"

text \<open>
  Everything the run takes from outside the program:
  \<^item> \<open>opendir\<close>: the entries of a directory in the order the system yields them to
    \<^verbatim>\<open>scandir\<close>, \<open>None\<close> when the directory cannot be read;
  \<^item> \<open>find_files\<close>: the entries a Windows search finds for a pattern, \<open>None\<close> when the
    search cannot be made;
  \<^item> \<open>fopen_rb\<close>: the stream \<^verbatim>\<open>fopen(path, "rb")\<close> gives, \<open>None\<close> when it fails;
  \<^item> \<open>malloc\<close>: whether the allocation of that many bytes (for \<^verbatim>\<open>calloc\<close>, elements) at
    a site succeeds;
  \<^item> \<open>heap\<close>: the bytes an uninitialised buffer holds when \<^verbatim>\<open>malloc\<close> returns it;
  \<^item> \<open>compressBound\<close>, \<open>deflateInit2\<close>, \<open>deflate\<close>: the zlib library.
    \<open>deflate p flush input avail_out\<close> is the return code and the bytes zlib produces
    (\<^verbatim>\<open>total_out\<close> of them) for the \<^verbatim>\<open>avail_in\<close> input bytes and an output buffer of
    \<^verbatim>\<open>avail_out\<close> bytes, on a stream initialised with \<open>p\<close>;
  \<^item> \<open>fopen_wb\<close>: the stream \<^verbatim>\<open>fopen(path, "wb")\<close> gives, \<open>None\<close> when it fails. The
    stream is its buffering: for a write of \<open>n\<close> bytes on the fresh stream, how many of
    them the C library keeps in the stream's buffer rather than passing them to the
    device at once (see \<open>fwrite\<close> below);
  \<^item> \<open>room\<close>: how many bytes the device behind the path accepts; \<open>disk\<close>: the files at
    the paths the run may write, \<open>None\<close> where there is no file.
\<close>

record world =
  opendir :: "string \<Rightarrow> dirent list option"
  find_files :: "string \<Rightarrow> WIN32_FIND_DATAA list option"
  fopen_rb :: "string \<Rightarrow> stream option"
  malloc :: "alloc_site \<Rightarrow> nat \<Rightarrow> bool"
  heap :: "nat \<Rightarrow> byte"
  compressBound :: "nat \<Rightarrow> nat"
  deflateInit2 :: "deflate_params \<Rightarrow> int"
  deflate :: "deflate_params \<Rightarrow> int \<Rightarrow> byte list \<Rightarrow> nat \<Rightarrow> int \<times> byte list"
  fopen_wb :: "string \<Rightarrow> (nat \<Rightarrow> nat) option"
  room :: "string \<Rightarrow> nat"
  disk :: "string \<Rightarrow> byte list option"

datatype platform = Posix | Win32

text \<open>One constructor for each \<^verbatim>\<open>fprintf(stderr, ...)\<close> of the program, in source order.\<close>

datatype diag =
    FailedToOpen string
  | FailedToRead string
  | Usage string
  | FailedToScan string
  | NoFrameFiles string
  | FailedToAllocateJoined
  | FailedToAllocateCompression
  | DeflateInit2Failed int
  | DeflateFailed int
  | FailedToCreate string
  | FailedToWrite

text \<open>
  How a run ends: \<^verbatim>\<open>main\<close> returns a status, or the process stores through a null pointer
  (undefined behaviour; the process is killed) and returns nothing.
\<close>

datatype status = Exit int | Crash

record result =
  status :: status
  err :: "diag list"
  out :: "diag list"
  files :: "string \<Rightarrow> byte list option"

subsection \<open>Reading one frame\<close>

text \<open>
  \<^verbatim>\<open>static char *read_file(const char *path, size_t *out_size)\<close>. The caller passes
  \<^verbatim>\<open>&frame_sizes[i]\<close>: the array (\<open>None\<close> when it is a null pointer) and the index. The
  result is \<open>ReadNull\<close> when the function returns \<^verbatim>\<open>NULL\<close>, \<open>ReadOk buf sizes\<close> when it
  returns the buffer, with the array after the store to \<^verbatim>\<open>*out_size\<close>, and \<open>ReadCrash\<close>
  when that store goes through the null array.
\<close>

datatype read_result = ReadCrash | ReadNull | ReadOk "byte list" "nat list"

definition read_file :: "world \<Rightarrow> string \<Rightarrow> nat list option \<Rightarrow> nat \<Rightarrow> diag list \<times> read_result" where
  "read_file w path frame_sizes i =
     (case fopen_rb w path of
        None \<Rightarrow> ([FailedToOpen path], ReadNull)
      | Some f \<Rightarrow>
          (let sz = s_size f in
           if \<not> malloc w (ReadBuffer path) sz then ([], ReadNull)
           else
             (let buf = take sz (s_data f) in
              if length buf \<noteq> sz then ([FailedToRead path], ReadNull)
              else
                (case frame_sizes of
                   None \<Rightarrow> ([], ReadCrash)
                 | Some sizes \<Rightarrow> ([], ReadOk buf (sizes[i := sz]))))))"

subsection \<open>The stages of main\<close>

text \<open>
  The scan, lines 98 to 104: \<^verbatim>\<open>scandir_txt(frames_dir, &namelist)\<close> under \<^verbatim>\<open>_WIN32\<close>,
  \<^verbatim>\<open>scandir(frames_dir, &namelist, filter_frames, compare_frames)\<close> otherwise. The later
  code reads \<^verbatim>\<open>namelist[i]\<close>, respectively \<^verbatim>\<open>namelist[i]->d_name\<close>: the list of names.
\<close>

definition scan_frames :: "platform \<Rightarrow> world \<Rightarrow> string \<Rightarrow> int \<times> string list" where
  "scan_frames pf w frames_dir =
     (case pf of
        Win32 \<Rightarrow> scandir_txt (find_files w (snprintf 4096 (frames_dir @ [CHR 0x5C] @ ''*.txt'')))
      | Posix \<Rightarrow>
          (let (n, namelist) = scandir (opendir w frames_dir) filter_frames compare_frames
           in (n, map d_name namelist)))"

text \<open>\<^verbatim>\<open>snprintf(path, sizeof(path), "%s/%s", frames_dir, name)\<close> with \<^verbatim>\<open>char path[4096]\<close>.\<close>

definition frame_path :: "string \<Rightarrow> string \<Rightarrow> string" where
  "frame_path frames_dir name = snprintf 4096 (frames_dir @ ''/'' @ name)"

text \<open>
  The first loop, lines 119 to 134. \<open>frame_contents\<close> and \<open>frame_sizes\<close> are the arrays
  \<^verbatim>\<open>calloc\<close> returned (\<open>None\<close>: a null pointer); a null entry of \<open>frame_contents\<close> is
  \<open>None\<close>. The store \<^verbatim>\<open>frame_contents[i] = read_file(...)\<close> comes before the test of its
  value, so it crashes on a null array whatever \<^verbatim>\<open>read_file\<close> returned.

  \<^verbatim>\<open>total_size\<close> is a \<^verbatim>\<open>size_t\<close>. All the frame buffers it counts are allocated at once
  in one address space, together with the two arrays, so the sum of their sizes plus
  their number is below the range of \<^verbatim>\<open>size_t\<close> and the additions do not wrap: they are
  additions of \<open>nat\<close>.
\<close>

type_synonym frames = "nat \<times> byte list option list option \<times> nat list option"

function read_loop ::
  "world \<Rightarrow> string \<Rightarrow> string list \<Rightarrow> nat \<Rightarrow> nat \<Rightarrow> frames \<Rightarrow> diag list
     \<Rightarrow> diag list \<times> (status + frames)"
where
  "read_loop w frames_dir namelist n i st msgs =
     (case st of (total_size, frame_contents, frame_sizes) \<Rightarrow>
        if i < n then
          (let path = frame_path frames_dir (namelist ! i) in
           case read_file w path frame_sizes i of
             (m, ReadCrash) \<Rightarrow> (msgs @ m, Inl Crash)
           | (m, ReadNull) \<Rightarrow>
               (case frame_contents of
                  None \<Rightarrow> (msgs @ m, Inl Crash)
                | Some contents \<Rightarrow> (msgs @ m, Inl (Exit 1)))
           | (m, ReadOk buf sizes) \<Rightarrow>
               (case frame_contents of
                  None \<Rightarrow> (msgs @ m, Inl Crash)
                | Some contents \<Rightarrow>
                    (let total_size = total_size + sizes ! i;
                         total_size = (if i < n - 1 then total_size + 1 else total_size)
                     in read_loop w frames_dir namelist n (i + 1)
                          (total_size, Some (contents[i := Some buf]), Some sizes)
                          (msgs @ m))))
        else (msgs, Inr st))"
  by pat_completeness auto
termination
  by (relation "measure (\<lambda>(w, frames_dir, namelist, n, i, st, msgs). n - i)") auto

text \<open>
  \<^verbatim>\<open>memcpy(dest + off, src, n)\<close> on a buffer \<open>dest\<close>. \<open>None\<close> when the source is a null
  pointer or the copy would read or write outside a buffer.
\<close>

definition memcpy :: "byte list \<Rightarrow> nat \<Rightarrow> byte list option \<Rightarrow> nat \<Rightarrow> byte list option" where
  "memcpy dest off src n =
     (case src of
        None \<Rightarrow> None
      | Some s \<Rightarrow>
          if off + n \<le> length dest \<and> n \<le> length s
          then Some (take off dest @ take n s @ drop (off + n) dest)
          else None)"

text \<open>
  The second loop, lines 142 to 149. \<open>None\<close> when a copy or the store of the separator
  would fall outside \<open>joined\<close>.
\<close>

function join_loop ::
  "byte list option list \<Rightarrow> nat list \<Rightarrow> nat \<Rightarrow> nat \<Rightarrow> nat \<Rightarrow> byte list \<Rightarrow> byte list option"
where
  "join_loop frame_contents frame_sizes n i offset joined =
     (if i < n then
        (case memcpy joined offset (frame_contents ! i) (frame_sizes ! i) of
           None \<Rightarrow> None
         | Some joined \<Rightarrow>
             (let offset = offset + frame_sizes ! i in
              if i < n - 1 then
                (if offset < length joined
                 then join_loop frame_contents frame_sizes n (i + 1) (offset + 1)
                        (joined[offset := SEPARATOR])
                 else None)
              else join_loop frame_contents frame_sizes n (i + 1) offset joined))
      else Some joined)"
  by pat_completeness auto
termination
  by (relation "measure (\<lambda>(frame_contents, frame_sizes, n, i, offset, joined). n - i)") auto

text \<open>The buffer \<^verbatim>\<open>malloc(total_size)\<close> returns: \<open>total_size\<close> bytes of whatever the heap held.\<close>

definition fresh_buffer :: "world \<Rightarrow> nat \<Rightarrow> byte list" where
  "fresh_buffer w total_size = map (heap w) [0..<total_size]"

text \<open>
  Lines 98 to 149: from the scan to the joined buffer. The result is the diagnostics
  written so far and either the way the run ended or \<^verbatim>\<open>total_size\<close> and \<^verbatim>\<open>joined\<close>.
\<close>

definition concatenate ::
  "platform \<Rightarrow> world \<Rightarrow> string \<Rightarrow> diag list \<times> (status + nat \<times> byte list)"
where
  "concatenate pf w frames_dir =
     (case scan_frames pf w frames_dir of (n, namelist) \<Rightarrow>
        if n < 0 then ([FailedToScan frames_dir], Inl (Exit 1))
        else if n = 0 then ([NoFrameFiles frames_dir], Inl (Exit 1))
        else
          (let frame_contents =
                 (if malloc w FrameContents (nat n) then Some (replicate (nat n) None) else None);
               frame_sizes =
                 (if malloc w FrameSizes (nat n) then Some (replicate (nat n) 0) else None)
           in case read_loop w frames_dir namelist (nat n) 0 (0, frame_contents, frame_sizes) [] of
                (msgs, Inl st) \<Rightarrow> (msgs, Inl st)
              | (msgs, Inr (total_size, None, _)) \<Rightarrow> (msgs, Inl Crash)
              | (msgs, Inr (total_size, Some contents, None)) \<Rightarrow> (msgs, Inl Crash)
              | (msgs, Inr (total_size, Some contents, Some sizes)) \<Rightarrow>
                  if \<not> malloc w Joined total_size
                  then (msgs @ [FailedToAllocateJoined], Inl (Exit 1))
                  else
                    (case join_loop contents sizes (nat n) 0 0 (fresh_buffer w total_size) of
                       None \<Rightarrow> (msgs, Inl Crash)
                     | Some joined \<Rightarrow> (msgs, Inr (total_size, joined)))))"

text \<open>
  Lines 151 to 179: the compression. \<^verbatim>\<open>stream.avail_in = total_size\<close> and
  \<^verbatim>\<open>stream.avail_out = compressed_size\<close> assign to \<^verbatim>\<open>uInt\<close> fields; zlib reads
  \<^verbatim>\<open>avail_in\<close> bytes from \<^verbatim>\<open>next_in\<close>.
\<close>

definition raw_deflate :: deflate_params where
  "raw_deflate =
     \<lparr>level = Z_DEFAULT_COMPRESSION, zmethod = Z_DEFLATED, windowBits = - MAX_WBITS,
      memLevel = 8, strategy = Z_DEFAULT_STRATEGY\<rparr>"

definition compress :: "world \<Rightarrow> nat \<Rightarrow> byte list \<Rightarrow> diag list \<times> (status + byte list)" where
  "compress w total_size joined =
     (let compressed_size = compressBound w total_size in
      if \<not> malloc w Compressed compressed_size
      then ([FailedToAllocateCompression], Inl (Exit 1))
      else
        (let avail_in = to_uInt total_size;
             avail_out = to_uInt compressed_size;
             ret = deflateInit2 w raw_deflate
         in if ret \<noteq> Z_OK then ([DeflateInit2Failed ret], Inl (Exit 1))
            else
              (case deflate w raw_deflate Z_FINISH (take avail_in joined) avail_out of
                 (ret, compressed) \<Rightarrow>
                   if ret \<noteq> Z_STREAM_END then ([DeflateFailed ret], Inl (Exit 1))
                   else ([], Inr compressed))))"

text \<open>
  \<^verbatim>\<open>fwrite(data, 1, n, out)\<close> on the stream just opened, whose buffering is \<open>keeps\<close>, on a
  device that accepts \<open>space\<close> bytes. The C library keeps the last \<open>keeps n\<close> bytes in the
  stream's buffer and passes the bytes before them to the device at once (glibc keeps
  the bytes beyond the last whole block, \<open>n mod blocksize\<close>; an unbuffered stream keeps
  none). When the device takes fewer bytes than are passed to it, the write fails and
  \<^verbatim>\<open>fwrite\<close> returns the number of bytes transferred; otherwise it returns \<open>n\<close>, the
  buffered bytes counting as written. The result is the count returned, the bytes on
  the device and the bytes in the buffer.
\<close>

definition fwrite :: "(nat \<Rightarrow> nat) \<Rightarrow> nat \<Rightarrow> byte list \<Rightarrow> nat \<times> byte list \<times> byte list" where
  "fwrite keeps space data =
     (let n = length data;
          through = n - keeps n
      in if space < through then (space, take space data, [])
         else (n, take through data, drop through data))"

text \<open>
  The flush of the stream's buffer, by \<^verbatim>\<open>fclose\<close> or at the exit of the process: the
  device takes the buffered bytes as far as it has room. The result is the file.
\<close>

definition fflush :: "nat \<Rightarrow> byte list \<Rightarrow> byte list \<Rightarrow> byte list" where
  "fflush space device buffer = device @ take (space - length device) buffer"

text \<open>
  Lines 181 to 194: the output. \<^verbatim>\<open>fopen(output_file, "wb")\<close> creates the file or cuts
  an existing one to length 0. After a short count from \<^verbatim>\<open>fwrite\<close>, \<^verbatim>\<open>main\<close> returns 1
  without closing the stream, and the exit of the process flushes it. Otherwise
  \<^verbatim>\<open>fclose(out)\<close> flushes it; \<^verbatim>\<open>main\<close> does not look at the result of \<^verbatim>\<open>fclose\<close> and
  returns 0, whether the buffered bytes reached the device or not.
\<close>

definition persist :: "world \<Rightarrow> string \<Rightarrow> diag list \<Rightarrow> byte list \<Rightarrow> result" where
  "persist w output_file msgs compressed =
     (case fopen_wb w output_file of
        None \<Rightarrow>
          \<lparr>status = Exit 1, err = msgs @ [FailedToCreate output_file], out = [], files = disk w\<rparr>
      | Some keeps \<Rightarrow>
          (let compressed_size = length compressed in
           case fwrite keeps (room w output_file) compressed of
             (written, device, buffer) \<Rightarrow>
               if written \<noteq> compressed_size
               then \<lparr>status = Exit 1, err = msgs @ [FailedToWrite], out = [],
                     files = (disk w)(output_file \<mapsto> fflush (room w output_file) device buffer)\<rparr>
               else \<lparr>status = Exit 0, err = msgs, out = [],
                     files = (disk w)(output_file \<mapsto> fflush (room w output_file) device buffer)\<rparr>))"

text \<open>
  \<^verbatim>\<open>int main(int argc, char **argv)\<close>: \<open>argv0\<close> is \<^verbatim>\<open>argv[0]\<close>, \<open>args\<close> are the
  arguments after it, so \<^verbatim>\<open>argc\<close> is \<open>1 + length args\<close>.
\<close>

definition main :: "platform \<Rightarrow> world \<Rightarrow> string \<Rightarrow> string list \<Rightarrow> result" where
  "main pf w argv0 args =
     (if 1 + length args \<noteq> 3
      then \<lparr>status = Exit 1, err = [Usage argv0], out = [], files = disk w\<rparr>
      else
        (let frames_dir = args ! 0;
             output_file = args ! 1
         in case concatenate pf w frames_dir of
              (msgs, Inl st) \<Rightarrow> \<lparr>status = st, err = msgs, out = [], files = disk w\<rparr>
            | (msgs, Inr (total_size, joined)) \<Rightarrow>
                (case compress w total_size joined of
                   (m, Inl st) \<Rightarrow> \<lparr>status = st, err = msgs @ m, out = [], files = disk w\<rparr>
                 | (m, Inr compressed) \<Rightarrow> persist w output_file (msgs @ m) compressed)))"

subsection \<open>The specification's concatenated buffer\<close>

text \<open>
  The specification's words: \<open>frame_1 || 0x01 || frame_2 || ... || 0x01 || frame_N\<close>.
\<close>

fun spec_concatenated_buffer :: "byte list list \<Rightarrow> byte list" where
  "spec_concatenated_buffer [] = []"
| "spec_concatenated_buffer [frame] = frame"
| "spec_concatenated_buffer (frame # frame' # frames) =
     frame @ [0x01] @ spec_concatenated_buffer (frame' # frames)"

subsection \<open>Frames that can be read\<close>

text \<open>
  Two notions to state properties with. \<open>readable w path\<close>: \<^verbatim>\<open>read_file\<close> returns a
  buffer for the path (the file opens, the buffer is allocated, \<^verbatim>\<open>fread\<close> delivers
  as many bytes as \<^verbatim>\<open>ftell\<close> reported). \<open>frame_bytes w path\<close>: the bytes of that buffer.
  The lemma \<open>read_file_readable\<close> below ties both to \<^verbatim>\<open>read_file\<close>.
\<close>

definition readable :: "world \<Rightarrow> string \<Rightarrow> bool" where
  "readable w path =
     (case fopen_rb w path of
        None \<Rightarrow> False
      | Some f \<Rightarrow> malloc w (ReadBuffer path) (s_size f) \<and> s_size f \<le> length (s_data f))"

definition frame_bytes :: "world \<Rightarrow> string \<Rightarrow> byte list" where
  "frame_bytes w path =
     (case fopen_rb w path of
        None \<Rightarrow> []
      | Some f \<Rightarrow> take (s_size f) (s_data f))"

text \<open>
  The specification's FrameSet, as contents: the bytes of the files the scan selected, in
  the order of the scan.
\<close>

definition frame_set :: "platform \<Rightarrow> world \<Rightarrow> string \<Rightarrow> byte list list" where
  "frame_set pf w frames_dir =
     map (\<lambda>name. frame_bytes w (frame_path frames_dir name)) (snd (scan_frames pf w frames_dir))"

text \<open>
  Two enumerations of one directory: both fail, or both yield the same entries, in any
  order. And the names a directory yields are C strings.
\<close>

definition same_entries :: "'a list option \<Rightarrow> 'a list option \<Rightarrow> bool" where
  "same_entries a b =
     (case (a, b) of
        (None, None) \<Rightarrow> True
      | (Some xs, Some ys) \<Rightarrow> mset xs = mset ys
      | _ \<Rightarrow> False)"

definition c_string_names :: "world \<Rightarrow> string \<Rightarrow> bool" where
  "c_string_names w frames_dir =
     ((case opendir w frames_dir of
         None \<Rightarrow> True
       | Some entries \<Rightarrow> list_all (\<lambda>e. c_string (d_name e)) entries)
    \<and> (case find_files w (snprintf 4096 (frames_dir @ [CHR 0x5C] @ ''*.txt'')) of
         None \<Rightarrow> True
       | Some found \<Rightarrow> list_all (\<lambda>fd. c_string (cFileName fd)) found))"

subsection \<open>An example run\<close>

text \<open>
  A world for concrete runs: the directory \<^verbatim>\<open>frames\<close> holds \<^verbatim>\<open>frame2.txt\<close> (the bytes
  \<^verbatim>\<open>BB\<close>), \<^verbatim>\<open>notes.md\<close> and \<^verbatim>\<open>frame10.txt\<close> (the bytes \<^verbatim>\<open>AA\<close>), yielded in that order;
  every allocation succeeds; the output stream buffers as glibc does with blocks of 4096
  bytes; the device takes 100 bytes; there is no output file yet.
  In place of zlib stands an engine that accepts the raw-DEFLATE parameters only and
  copies its input to its output when the output buffer is large enough.
\<close>

definition echo_deflate :: "deflate_params \<Rightarrow> int \<Rightarrow> byte list \<Rightarrow> nat \<Rightarrow> int \<times> byte list" where
  "echo_deflate p flush input avail_out =
     (if length input \<le> avail_out then (Z_STREAM_END, input) else (Z_OK, take avail_out input))"

definition example_world :: world where
  "example_world =
     \<lparr>opendir = (\<lambda>dir. if dir = ''frames''
        then Some [\<lparr>d_name = ''frame2.txt'', d_type = DT_REG\<rparr>,
                   \<lparr>d_name = ''notes.md'', d_type = DT_REG\<rparr>,
                   \<lparr>d_name = ''frame10.txt'', d_type = DT_REG\<rparr>]
        else None),
      find_files = (\<lambda>pattern. if pattern = ''frames'' @ [CHR 0x5C] @ ''*.txt''
        then Some [\<lparr>dwFileAttributes = 0x20, cFileName = ''frame2.txt''\<rparr>,
                   \<lparr>dwFileAttributes = 0x20, cFileName = ''frame10.txt''\<rparr>]
        else None),
      fopen_rb = (\<lambda>path.
        if path = ''frames/frame10.txt'' then Some \<lparr>s_size = 2, s_data = [0x41, 0x41]\<rparr>
        else if path = ''frames/frame2.txt'' then Some \<lparr>s_size = 2, s_data = [0x42, 0x42]\<rparr>
        else None),
      malloc = (\<lambda>site n. True),
      heap = (\<lambda>a. 0xEE),
      compressBound = (\<lambda>n. n + 13),
      deflateInit2 = (\<lambda>p. if p = raw_deflate then Z_OK else - 2),
      deflate = echo_deflate,
      fopen_wb = (\<lambda>path. Some (\<lambda>n. n mod 4096)),
      room = (\<lambda>path. 100),
      disk = (\<lambda>path. None)\<rparr>"

section \<open>Properties\<close>

subsection \<open>strcmp and the byte-wise lexicographic order\<close>

text \<open>
  The order \<open><\<close> on \<open>string\<close> is the lexicographic order of lists over the order of
  \<open>char\<close> by byte value. On C strings \<^verbatim>\<open>strcmp\<close> decides it.
\<close>

lemma of_char_int_nat: "(of_char c :: int) = int (of_char c)"
  by (simp add: of_nat_of_char)

lemma of_char_less_iff: "((of_char a :: int) < of_char b) = (a < b)"
  by (simp add: of_char_int_nat less_char_def)

lemma of_char_pos: "CHR 0x00 \<noteq> c \<Longrightarrow> (0::int) < of_char c"
proof -
  assume "CHR 0x00 \<noteq> c"
  then have "(of_char c :: int) \<noteq> of_char (CHR 0x00)"
    by (simp only: of_char_eq_iff)
  moreover have "(0::int) \<le> of_char c"
    by (simp add: of_char_int_nat)
  ultimately show ?thesis by simp
qed

lemma strcmp_less_iff:
  "c_string a \<Longrightarrow> c_string b \<Longrightarrow> (strcmp a b < 0) = (a < b)"
proof (induction a b rule: strcmp.induct)
  case (2 b bs)
  then show ?case using of_char_pos [of b] by (simp add: c_string_def)
next
  case (3 a as)
  then show ?case using of_char_pos [of a] by (simp add: c_string_def)
next
  case (4 a as b bs)
  then show ?case by (auto simp: c_string_def of_char_less_iff)
qed simp

lemma strcmp_eq_iff:
  "c_string a \<Longrightarrow> c_string b \<Longrightarrow> (strcmp a b = 0) = (a = b)"
proof (induction a b rule: strcmp.induct)
  case (2 b bs)
  then show ?case using of_char_pos [of b] by (simp add: c_string_def)
next
  case (3 a as)
  then show ?case using of_char_pos [of a] by (simp add: c_string_def)
next
  case (4 a as b bs)
  then show ?case by (auto simp: c_string_def of_char_eq_iff)
qed simp

lemma strcmp_le_iff:
  "c_string a \<Longrightarrow> c_string b \<Longrightarrow> (strcmp a b \<le> 0) = (a \<le> b)"
  using strcmp_less_iff [of a b] strcmp_eq_iff [of a b] by (auto simp: order_le_less)

lemma strcmp_gt_iff:
  "c_string a \<Longrightarrow> c_string b \<Longrightarrow> (strcmp a b > 0) = (b < a)"
  using strcmp_le_iff [of a b] by auto


subsection \<open>Sorting the names\<close>

lemma mset_qsort_insert: "mset (qsort_insert compar x ys) = add_mset x (mset ys)"
  by (induction ys) auto

lemma mset_qsort: "mset (qsort compar xs) = mset xs"
  by (induction xs) (auto simp: qsort_def mset_qsort_insert)

lemma set_qsort: "set (qsort compar xs) = set xs"
  using mset_qsort [of compar xs] by (metis set_mset_mset)

lemma sorted_qsort_insert:
  assumes "sorted (map d_name ys)" "c_string (d_name x)" "\<forall>y \<in> set ys. c_string (d_name y)"
  shows "sorted (map d_name (qsort_insert compare_frames x ys))"
  using assms
proof (induction ys)
  case Nil
  then show ?case by simp
next
  case (Cons y ys)
  have le: "(compare_frames x y \<le> 0) = (d_name x \<le> d_name y)"
    using Cons.prems by (simp add: compare_frames_def strcmp_le_iff)
  have s: "set (qsort_insert compare_frames x ys) = insert x (set ys)"
    using mset_qsort_insert [of compare_frames x ys] by (metis set_mset_mset set_mset_add_mset_insert)
  show ?case
  proof (cases "compare_frames x y \<le> 0")
    case True
    then show ?thesis using Cons.prems le by auto
  next
    case False
    then have "d_name y \<le> d_name x" using le by auto
    then show ?thesis using False Cons by (auto simp: s)
  qed
qed

lemma sorted_qsort:
  "\<forall>y \<in> set xs. c_string (d_name y) \<Longrightarrow> sorted (map d_name (qsort compare_frames xs))"
proof (induction xs)
  case Nil
  then show ?case by (simp add: qsort_def)
next
  case (Cons x xs)
  then have "sorted (map d_name (qsort compare_frames xs))" by simp
  then have "sorted (map d_name (qsort_insert compare_frames x (qsort compare_frames xs)))"
    using Cons.prems by (intro sorted_qsort_insert) (auto simp: set_qsort)
  then show ?case by (simp add: qsort_def)
qed

lemma names_qsort:
  assumes "\<forall>y \<in> set xs. c_string (d_name y)"
  shows "map d_name (qsort compare_frames xs) = sort (map d_name xs)"
proof -
  have "mset (map d_name (qsort compare_frames xs)) = mset (map d_name xs)"
    by (simp add: mset_qsort)
  then show ?thesis
    using sorted_qsort [OF assms] by (rule properties_for_sort [symmetric])
qed

declare sort_inner.simps [simp del] sort_outer.simps [simp del]
declare read_loop.simps [simp del] join_loop.simps [simp del]

lemma sort_inner_length: "length (sort_inner cnt i j names) = length names"
proof (induction cnt i j names rule: sort_inner.induct)
  case (1 cnt i j names)
  show ?case
  proof (cases "j < cnt")
    case True
    then show ?thesis using "1.IH" by (subst sort_inner.simps) (simp split: if_splits)
  next
    case False
    then show ?thesis by (subst sort_inner.simps) simp
  qed
qed

lemma sort_inner_mset:
  "i < length names \<Longrightarrow> cnt \<le> length names \<Longrightarrow> mset (sort_inner cnt i j names) = mset names"
proof (induction cnt i j names rule: sort_inner.induct)
  case (1 cnt i j names)
  show ?case
  proof (cases "j < cnt")
    case True
    let ?names' = "if strcmp (names ! i) (names ! j) > 0
           then names[i := names ! j, j := names ! i] else names"
    have "mset ?names' = mset names"
      using True 1(2,3) by (simp add: mset_swap)
    moreover have "mset (sort_inner cnt i (j + 1) ?names') = mset ?names'"
      using True 1 by (intro "1.IH") auto
    ultimately show ?thesis using True by (subst sort_inner.simps) simp
  next
    case False
    then show ?thesis by (subst sort_inner.simps) simp
  qed
qed

lemma sort_outer_mset:
  "cnt \<le> length names \<Longrightarrow> mset (sort_outer cnt i names) = mset names"
proof (induction cnt i names rule: sort_outer.induct)
  case (1 cnt i names)
  show ?case
  proof (cases "i + 1 < cnt")
    case True
    then show ?thesis
      using 1 by (subst sort_outer.simps) (simp add: sort_inner_length sort_inner_mset)
  next
    case False
    then show ?thesis by (subst sort_outer.simps) simp
  qed
qed

lemma sort_inner_set: 
  "i < length names \<Longrightarrow> cnt \<le> length names \<Longrightarrow> set (sort_inner cnt i j names) = set names"
  using sort_inner_mset [of i names cnt j] by (metis set_mset_mset)

lemma sort_inner_inv:
  assumes "i < j" "cnt = length names"
    and "\<forall>a<i. \<forall>b. a < b \<and> b < cnt \<longrightarrow> names ! a \<le> names ! b"
    and "\<forall>k. i < k \<and> k < j \<longrightarrow> names ! i \<le> names ! k"
    and "\<forall>s \<in> set names. c_string s"
  shows "(\<forall>a<i. \<forall>b. a < b \<and> b < cnt \<longrightarrow>
            sort_inner cnt i j names ! a \<le> sort_inner cnt i j names ! b)
       \<and> (\<forall>k. i < k \<and> k < cnt \<longrightarrow> sort_inner cnt i j names ! i \<le> sort_inner cnt i j names ! k)"
  using assms
proof (induction cnt i j names rule: sort_inner.induct)
  case (1 cnt i j names)
  show ?case
  proof (cases "j < cnt")
    case False
    then show ?thesis using "1.prems" by (subst (1 2 3 4) sort_inner.simps) auto
  next
    case True
    let ?sw = "strcmp (names ! i) (names ! j) > 0"
    let ?names' = "if ?sw then names[i := names ! j, j := names ! i] else names"
    have ij: "i < length names" "j < length names" "i \<noteq> j"
      using True "1.prems" by auto
    have cs: "c_string (names ! i)" "c_string (names ! j)"
      using ij "1.prems"(5) by auto
    have sw: "?sw = (names ! j < names ! i)"
      using cs by (simp add: strcmp_gt_iff)
    have len: "cnt = length ?names'" using "1.prems" by simp
    have set': "set ?names' = set names"
      using ij by (auto simp: set_swap)
    have cs': "\<forall>s \<in> set ?names'. c_string s"
      using "1.prems"(5) by (simp only: set')
    have P: "\<forall>a<i. \<forall>b. a < b \<and> b < cnt \<longrightarrow> ?names' ! a \<le> ?names' ! b"
    proof (intro allI impI)
      fix a b assume a: "a < i" and b: "a < b \<and> b < cnt"
      have "names ! a \<le> names ! b" "names ! a \<le> names ! i" "names ! a \<le> names ! j"
        using a b "1.prems" True by auto
      then show "?names' ! a \<le> ?names' ! b"
        using a b ij "1.prems"(1,2) by (auto simp: nth_list_update)
    qed
    have Q: "\<forall>k. i < k \<and> k < j + 1 \<longrightarrow> ?names' ! i \<le> ?names' ! k"
    proof (intro allI impI)
      fix k assume k: "i < k \<and> k < j + 1"
      show "?names' ! i \<le> ?names' ! k"
      proof (cases "k = j")
        case True
        then show ?thesis using ij sw by (auto simp: nth_list_update)
      next
        case False
        then have "names ! i \<le> names ! k" using k "1.prems"(4) by auto
        then show ?thesis using k False ij sw by (auto simp: nth_list_update)
      qed
    qed
    have "(\<forall>a<i. \<forall>b. a < b \<and> b < cnt \<longrightarrow>
            sort_inner cnt i (j + 1) ?names' ! a \<le> sort_inner cnt i (j + 1) ?names' ! b)
       \<and> (\<forall>k. i < k \<and> k < cnt \<longrightarrow>
            sort_inner cnt i (j + 1) ?names' ! i \<le> sort_inner cnt i (j + 1) ?names' ! k)"
    proof (rule "1.IH" [OF True _ len P Q cs'])
      show "i < j + 1" using "1.prems"(1) by simp
    qed
    moreover have "sort_inner cnt i j names = sort_inner cnt i (j + 1) ?names'"
      using True by (subst sort_inner.simps) simp
    ultimately show ?thesis by simp
  qed
qed

lemma sort_outer_sorted:
  assumes "cnt = length names"
    and "\<forall>a<i. \<forall>b. a < b \<and> b < cnt \<longrightarrow> names ! a \<le> names ! b"
    and "\<forall>s \<in> set names. c_string s"
  shows "sorted (sort_outer cnt i names)"
  using assms
proof (induction cnt i names rule: sort_outer.induct)
  case (1 cnt i names)
  show ?case
  proof (cases "i + 1 < cnt")
    case False
    have "names ! a \<le> names ! b" if "a < b" "b < length names" for a b
      using that False "1.prems"(1,2) by (cases "a < i") auto
    then have "sorted names"
      by (simp add: sorted_iff_nth_mono_less)
    then show ?thesis using False by (subst sort_outer.simps) simp
  next
    case True
    let ?names' = "sort_inner cnt i (i + 1) names"
    have inv: "(\<forall>a<i. \<forall>b. a < b \<and> b < cnt \<longrightarrow> ?names' ! a \<le> ?names' ! b)
       \<and> (\<forall>k. i < k \<and> k < cnt \<longrightarrow> ?names' ! i \<le> ?names' ! k)"
      using "1.prems" by (intro sort_inner_inv) auto
    have P: "\<forall>a<i + 1. \<forall>b. a < b \<and> b < cnt \<longrightarrow> ?names' ! a \<le> ?names' ! b"
    proof (intro allI impI)
      fix a b assume "a < i + 1" "a < b \<and> b < cnt"
      then show "?names' ! a \<le> ?names' ! b"
        using inv by (cases "a = i") auto
    qed
    have "set ?names' = set names"
      using True "1.prems"(1) by (intro sort_inner_set) auto
    then have "sorted (sort_outer cnt (i + 1) ?names')"
      using True "1.prems" P by (intro "1.IH") (auto simp: sort_inner_length)
    then show ?thesis using True by (subst sort_outer.simps) simp
  qed
qed

lemma sort_outer_sort:
  assumes "\<forall>s \<in> set names. c_string s"
  shows "sort_outer (length names) 0 names = sort names"
proof -
  have "sorted (sort_outer (length names) 0 names)"
    using assms by (intro sort_outer_sorted) auto
  moreover have "mset (sort_outer (length names) 0 names) = mset names"
    by (simp add: sort_outer_mset)
  ultimately show ?thesis by (metis properties_for_sort)
qed

subsection \<open>What the scan returns\<close>


lemma scan_frames_Posix:
  assumes "opendir w frames_dir = Some entries" "\<forall>e \<in> set entries. c_string (d_name e)"
  shows "scan_frames Posix w frames_dir =
    (int (length (filter (\<lambda>e. filter_frames e \<noteq> 0) entries)),
     sort (map d_name (filter (\<lambda>e. filter_frames e \<noteq> 0) entries)))"
proof -
  let ?sel = "filter (\<lambda>e. filter_frames e \<noteq> 0) entries"
  have "\<forall>e \<in> set ?sel. c_string (d_name e)" using assms(2) by simp
  then have "map d_name (qsort compare_frames ?sel) = sort (map d_name ?sel)"
    by (rule names_qsort)
  moreover have "length (qsort compare_frames ?sel) = length ?sel"
    using mset_qsort [of compare_frames ?sel] by (metis size_mset)
  ultimately show ?thesis
    using assms(1) by (simp add: scan_frames_def scandir_def Let_def)
qed

lemma find_loop_eq:
  "find_loop fd h names =
     names @ map cFileName (filter (\<lambda>fd. dwFileAttributes fd AND FILE_ATTRIBUTE_DIRECTORY = 0) (fd # h))"
  by (induction h arbitrary: fd names) auto

lemma scandir_txt_eq:
  assumes "\<forall>fd \<in> set found. c_string (cFileName fd)" "found \<noteq> []"
  shows "scandir_txt (Some found) =
    (int (length (filter (\<lambda>fd. dwFileAttributes fd AND FILE_ATTRIBUTE_DIRECTORY = 0) found)),
     sort (map cFileName (filter (\<lambda>fd. dwFileAttributes fd AND FILE_ATTRIBUTE_DIRECTORY = 0) found)))"
proof -
  obtain fd h where found: "found = fd # h" using assms(2) by (cases found) auto
  let ?names = "map cFileName (filter (\<lambda>fd. dwFileAttributes fd AND FILE_ATTRIBUTE_DIRECTORY = 0) found)"
  have "\<forall>s \<in> set ?names. c_string s" using assms(1) by auto
  then have srt: "sort_outer (length ?names) 0 ?names = sort ?names"
    by (rule sort_outer_sort)
  have fl: "find_loop fd h [] = ?names"
    unfolding found by (simp only: find_loop_eq append_Nil)
  have "scandir_txt (Some found) = (int (length ?names), sort_outer (length ?names) 0 ?names)"
    unfolding scandir_txt_def FindFirstFileA_def
    by (simp only: found option.case list.case prod.case fl Let_def)
  then show ?thesis
    using srt by simp
qed

subsection \<open>The order of the frame set\<close>

lemma sort_mset_cong: "mset xs = mset ys \<Longrightarrow> sort xs = sort (ys :: 'a :: linorder list)"
  by (metis mset_sort properties_for_sort sorted_sort)

lemma scan_frames_Posix_perm:
  assumes "opendir w frames_dir = Some entries" "opendir w' frames_dir = Some entries'"
    and "mset entries' = mset entries" "\<forall>e \<in> set entries. c_string (d_name e)"
  shows "scan_frames Posix w' frames_dir = scan_frames Posix w frames_dir"
proof -
  let ?P = "\<lambda>e. filter_frames e \<noteq> 0"
  have cs': "\<forall>e \<in> set entries'. c_string (d_name e)"
    using assms(3,4) by (metis set_mset_mset)
  have m: "mset (filter ?P entries') = mset (filter ?P entries)"
    using assms(3) by simp
  then have "mset (map d_name (filter ?P entries')) = mset (map d_name (filter ?P entries))"
    by simp
  then have "sort (map d_name (filter ?P entries')) = sort (map d_name (filter ?P entries))"
    by (rule sort_mset_cong)
  moreover have "length (filter ?P entries') = length (filter ?P entries)"
    using m by (metis size_mset)
  ultimately show ?thesis
    using scan_frames_Posix [OF assms(1,4)] scan_frames_Posix [OF assms(2) cs'] by simp
qed

lemma scandir_txt_perm:
  assumes "mset found' = mset found" "\<forall>fd \<in> set found. c_string (cFileName fd)"
  shows "scandir_txt (Some found') = scandir_txt (Some found)"
proof (cases "found = []")
  case True
  then have "found' = []" using assms(1) by simp
  then show ?thesis using True by simp
next
  case False
  let ?P = "\<lambda>fd. dwFileAttributes fd AND FILE_ATTRIBUTE_DIRECTORY = 0"
  have ne: "found' \<noteq> []" using False assms(1) by auto
  have cs': "\<forall>fd \<in> set found'. c_string (cFileName fd)"
    using assms by (metis set_mset_mset)
  have m: "mset (filter ?P found') = mset (filter ?P found)"
    using assms(1) by simp
  then have "mset (map cFileName (filter ?P found')) = mset (map cFileName (filter ?P found))"
    by simp
  then have "sort (map cFileName (filter ?P found')) = sort (map cFileName (filter ?P found))"
    by (rule sort_mset_cong)
  moreover have "length (filter ?P found') = length (filter ?P found)"
    using m by (metis size_mset)
  ultimately show ?thesis
    using scandir_txt_eq [OF assms(2) False] scandir_txt_eq [OF cs' ne] by simp
qed

text \<open>
  C2. The frame set lists the names in byte-wise lexicographic order, whatever the order
  in which the directory yields its entries: on both branches the names the scan
  returns are the \<open>sort\<close> of the selected names under the lexicographic order of their
  bytes, a second enumeration of the same entries in another order gives the same
  result, and \<^verbatim>\<open>frame10.txt\<close> comes before \<^verbatim>\<open>frame2.txt\<close>. (The names need not even be
  distinct.)
\<close>

theorem frame_set_in_bytewise_order:
  assumes "opendir w frames_dir = Some entries"
    and "opendir w' frames_dir = Some entries'"
    and "mset entries' = mset entries"
    and "\<forall>e \<in> set entries. c_string (d_name e)"
    and "find_files w (snprintf 4096 (frames_dir @ [CHR 0x5C] @ ''*.txt'')) = Some found"
    and "find_files w' (snprintf 4096 (frames_dir @ [CHR 0x5C] @ ''*.txt'')) = Some found'"
    and "mset found' = mset found"
    and "\<forall>fd \<in> set found. c_string (cFileName fd)"
  shows "snd (scan_frames Posix w frames_dir) =
           sort (map d_name (filter (\<lambda>e. filter_frames e \<noteq> 0) entries))
       \<and> scan_frames Posix w' frames_dir = scan_frames Posix w frames_dir
       \<and> snd (scan_frames Win32 w frames_dir) =
           sort (map cFileName
             (filter (\<lambda>fd. dwFileAttributes fd AND FILE_ATTRIBUTE_DIRECTORY = 0) found))
       \<and> scan_frames Win32 w' frames_dir = scan_frames Win32 w frames_dir
       \<and> strcmp ''frame10.txt'' ''frame2.txt'' < 0"
proof -
  have p1: "snd (scan_frames Posix w frames_dir) =
           sort (map d_name (filter (\<lambda>e. filter_frames e \<noteq> 0) entries))"
    using scan_frames_Posix [OF assms(1,4)] by simp
  have p2: "scan_frames Posix w' frames_dir = scan_frames Posix w frames_dir"
    using assms(1-4) by (rule scan_frames_Posix_perm)
  have w1: "snd (scan_frames Win32 w frames_dir) =
           sort (map cFileName
             (filter (\<lambda>fd. dwFileAttributes fd AND FILE_ATTRIBUTE_DIRECTORY = 0) found))"
  proof (cases "found = []")
    case True
    then show ?thesis
      using assms(5) by (simp add: scan_frames_def scandir_txt_def FindFirstFileA_def)
  next
    case False
    then show ?thesis
      using assms(5) scandir_txt_eq [OF assms(8) False] by (simp add: scan_frames_def)
  qed
  have w2: "scan_frames Win32 w' frames_dir = scan_frames Win32 w frames_dir"
    using assms(5,6) scandir_txt_perm [OF assms(7,8)] by (simp add: scan_frames_def)
  have "strcmp ''frame10.txt'' ''frame2.txt'' < 0" by simp
  then show ?thesis using p1 p2 w1 w2 by simp
qed

theorem frame_set_in_bytewise_order_witness:
  "snd (scan_frames Posix example_world ''frames'') = [''frame10.txt'', ''frame2.txt'']
 \<and> scan_frames Posix
       (example_world\<lparr>opendir := \<lambda>dir. Some
          [\<lparr>d_name = ''frame10.txt'', d_type = DT_REG\<rparr>,
           \<lparr>d_name = ''frame2.txt'', d_type = DT_REG\<rparr>,
           \<lparr>d_name = ''notes.md'', d_type = DT_REG\<rparr>]\<rparr>) ''frames''
     = scan_frames Posix example_world ''frames''
 \<and> snd (scan_frames Win32 example_world ''frames'') = [''frame10.txt'', ''frame2.txt'']
 \<and> scan_frames Win32
       (example_world\<lparr>find_files := \<lambda>pattern. Some
          [\<lparr>dwFileAttributes = 0x20, cFileName = ''frame10.txt''\<rparr>,
           \<lparr>dwFileAttributes = 0x20, cFileName = ''frame2.txt''\<rparr>]\<rparr>) ''frames''
     = scan_frames Win32 example_world ''frames''"
proof -
  let ?es = "[\<lparr>d_name = ''frame2.txt'', d_type = DT_REG\<rparr>,
        \<lparr>d_name = ''notes.md'', d_type = DT_REG\<rparr>,
        \<lparr>d_name = ''frame10.txt'', d_type = DT_REG\<rparr>]"
  let ?es' = "[\<lparr>d_name = ''frame10.txt'', d_type = DT_REG\<rparr>,
        \<lparr>d_name = ''frame2.txt'', d_type = DT_REG\<rparr>,
        \<lparr>d_name = ''notes.md'', d_type = DT_REG\<rparr>]"
  let ?fs = "[\<lparr>dwFileAttributes = 0x20, cFileName = ''frame2.txt''\<rparr>,
        \<lparr>dwFileAttributes = 0x20, cFileName = ''frame10.txt''\<rparr>]"
  let ?fs' = "[\<lparr>dwFileAttributes = 0x20, cFileName = ''frame10.txt''\<rparr>,
        \<lparr>dwFileAttributes = 0x20, cFileName = ''frame2.txt''\<rparr>]"
  let ?w' = "example_world\<lparr>opendir := \<lambda>dir. Some ?es'\<rparr>"
  let ?w'' = "example_world\<lparr>find_files := \<lambda>pattern. Some ?fs'\<rparr>"
  have h1: "opendir example_world ''frames'' = Some ?es"
    by (simp add: example_world_def)
  have h2: "opendir ?w' ''frames'' = Some ?es'" by simp
  have h3: "mset ?es' = mset ?es" by simp
  have h4: "\<forall>e \<in> set ?es. c_string (d_name e)" by (simp add: c_string_def)
  have h5: "find_files example_world (snprintf 4096 (''frames'' @ [CHR 0x5C] @ ''*.txt'')) = Some ?fs"
    by (simp add: example_world_def snprintf_def)
  have h6: "find_files ?w'' (snprintf 4096 (''frames'' @ [CHR 0x5C] @ ''*.txt'')) = Some ?fs'"
    by simp
  have h7: "mset ?fs' = mset ?fs" by simp
  have h8: "\<forall>fd \<in> set ?fs. c_string (cFileName fd)" by (simp add: c_string_def)
  have h5': "find_files ?w' (snprintf 4096 (''frames'' @ [CHR 0x5C] @ ''*.txt'')) = Some ?fs"
    using h5 by simp
  have h2': "opendir ?w'' ''frames'' = Some ?es" using h1 by simp
  have sel: "filter (\<lambda>e. filter_frames e \<noteq> 0) ?es =
      [\<lparr>d_name = ''frame2.txt'', d_type = DT_REG\<rparr>, \<lparr>d_name = ''frame10.txt'', d_type = DT_REG\<rparr>]"
    by (simp add: filter_frames_def)
  have dirs: "filter (\<lambda>fd. dwFileAttributes fd AND FILE_ATTRIBUTE_DIRECTORY = 0) ?fs = ?fs"
    by (simp add: FILE_ATTRIBUTE_DIRECTORY_def)
  have srt: "sort [''frame2.txt'', ''frame10.txt''] = [''frame10.txt'', ''frame2.txt'']"
    by simp
  from frame_set_in_bytewise_order [OF h1 h2 h3 h4 h5 h5' refl h8]
  have a: "snd (scan_frames Posix example_world ''frames'') = [''frame10.txt'', ''frame2.txt'']"
    and b: "scan_frames Posix ?w' ''frames'' = scan_frames Posix example_world ''frames''"
    using sel srt by simp_all
  from frame_set_in_bytewise_order [OF h1 h2' refl h4 h5 h6 h7 h8]
  have c: "snd (scan_frames Win32 example_world ''frames'') = [''frame10.txt'', ''frame2.txt'']"
    and d: "scan_frames Win32 ?w'' ''frames'' = scan_frames Win32 example_world ''frames''"
    using dirs srt by simp_all
  show ?thesis using a b c d by simp
qed

subsection \<open>Which entries the scan selects\<close>




text \<open>
  Beside this, \<^verbatim>\<open>filter_frames\<close> never reads \<^verbatim>\<open>d_type\<close>: on the POSIX branch a
  subdirectory whose name ends with \<^verbatim>\<open>.txt\<close> is selected, while the Windows branch
  skips every directory.
\<close>

lemma posix_selects_subdirectory:
  "scandir (Some [\<lparr>d_name = ''sub.txt'', d_type = DT_DIR\<rparr>]) filter_frames compare_frames
     = (1, [\<lparr>d_name = ''sub.txt'', d_type = DT_DIR\<rparr>])"
  by (simp add: filter_frames_def scandir_def qsort_def)

subsection \<open>The two loops of main\<close>

lemma read_file_readable:
  "readable w path \<Longrightarrow>
     read_file w path (Some sizes) i =
       ([], ReadOk (frame_bytes w path) (sizes[i := length (frame_bytes w path)]))"
  by (auto simp: readable_def frame_bytes_def read_file_def Let_def split: option.splits)

lemma read_file_not_readable:
  "\<not> readable w path \<Longrightarrow> snd (read_file w path sizes i) = ReadNull"
  by (auto simp: readable_def read_file_def Let_def split: option.splits)

lemma read_file_null_sizes:
  "readable w path \<Longrightarrow> read_file w path None i = ([], ReadCrash)"
  by (auto simp: readable_def read_file_def Let_def split: option.splits)

lemma length_spec_concatenated_buffer:
  "length (spec_concatenated_buffer frames) = sum_list (map length frames) + (length frames - 1)"
  by (induction frames rule: spec_concatenated_buffer.induct) auto

lemma read_loop_ok:
  assumes "\<forall>k<n. readable w (frame_path frames_dir (namelist ! k))"
    and "i \<le> n" "length contents = n" "length sizes = n"
  shows "read_loop w frames_dir namelist n i (total_size, Some contents, Some sizes) msgs =
    (msgs, Inr
      (total_size + (\<Sum>k\<leftarrow>[i..<n]. length (frame_bytes w (frame_path frames_dir (namelist ! k))))
         + ((n - 1) - min i (n - 1)),
       Some (take i contents @ map (\<lambda>k. Some (frame_bytes w (frame_path frames_dir (namelist ! k)))) [i..<n]),
       Some (take i sizes @ map (\<lambda>k. length (frame_bytes w (frame_path frames_dir (namelist ! k)))) [i..<n])))"
  using assms(2-4)
proof (induction "n - i" arbitrary: i total_size contents sizes)
  case 0
  then have "i = n" by simp
  then show ?case using 0 by (subst read_loop.simps) simp
next
  case (Suc d)
  then have lt: "i < n" by simp
  let ?fb = "\<lambda>k. frame_bytes w (frame_path frames_dir (namelist ! k))"
  have rd: "read_file w (frame_path frames_dir (namelist ! i)) (Some sizes) i =
       ([], ReadOk (?fb i) (sizes[i := length (?fb i)]))"
    using assms(1) lt by (simp add: read_file_readable)
  let ?t = "total_size + length (?fb i) + (if i < n - 1 then 1 else 0)"
  let ?c = "contents[i := Some (?fb i)]"
  let ?s = "sizes[i := length (?fb i)]"
  have step: "read_loop w frames_dir namelist n i (total_size, Some contents, Some sizes) msgs =
      read_loop w frames_dir namelist n (i + 1) (?t, Some ?c, Some ?s) msgs"
    using lt Suc.prems by (subst read_loop.simps) (simp add: rd Let_def)
  have ih: "read_loop w frames_dir namelist n (i + 1) (?t, Some ?c, Some ?s) msgs =
    (msgs, Inr
      (?t + (\<Sum>k\<leftarrow>[i + 1..<n]. length (?fb k)) + ((n - 1) - min (i + 1) (n - 1)),
       Some (take (i + 1) ?c @ map (\<lambda>k. Some (?fb k)) [i + 1..<n]),
       Some (take (i + 1) ?s @ map (\<lambda>k. length (?fb k)) [i + 1..<n])))"
    using Suc.hyps(2) lt Suc.prems by (intro Suc.hyps(1)) auto
  have upt: "[i..<n] = i # [i + 1..<n]" using lt by (simp add: upt_conv_Cons)
  have tc: "take (i + 1) ?c = take i contents @ [Some (?fb i)]"
    using lt Suc.prems by (simp add: take_Suc_conv_app_nth)
  have ts: "take (i + 1) ?s = take i sizes @ [length (?fb i)]"
    using lt Suc.prems by (simp add: take_Suc_conv_app_nth)
  have tot: "?t + (\<Sum>k\<leftarrow>[i + 1..<n]. length (?fb k)) + ((n - 1) - min (i + 1) (n - 1)) =
      total_size + (\<Sum>k\<leftarrow>[i..<n]. length (?fb k)) + ((n - 1) - min i (n - 1))"
  proof -
    have "(if i < n - 1 then 1 else 0) + ((n - 1) - min (i + 1) (n - 1)) = (n - 1) - min i (n - 1)"
      using lt by (auto simp: min_def)
    moreover have "(\<Sum>k\<leftarrow>[i..<n]. length (?fb k)) =
        length (?fb i) + (\<Sum>k\<leftarrow>[i + 1..<n]. length (?fb k))"
      by (simp add: upt)
    ultimately show ?thesis by linarith
  qed
  show ?case
    unfolding step ih tc ts tot by (simp add: upt)
qed

lemma memcpy_append:
  "length rest \<ge> length src \<Longrightarrow>
     memcpy (pre @ rest) (length pre) (Some src) (length src) =
       Some (pre @ src @ drop (length src) rest)"
  by (simp add: memcpy_def)

lemma join_loop_ok:
  assumes "n = length frames" "i \<le> n"
    and "length rest = length (spec_concatenated_buffer (drop i frames))"
  shows "join_loop (map Some frames) (map length frames) n i (length pre) (pre @ rest) =
           Some (pre @ spec_concatenated_buffer (drop i frames))"
  using assms(2,3)
proof (induction "n - i" arbitrary: i pre rest)
  case 0
  then have "i = n" by simp
  then show ?case using 0 assms(1) by (subst join_loop.simps) simp
next
  case (Suc d)
  then have lt: "i < n" by simp
  let ?f = "frames ! i"
  have dr: "drop i frames = ?f # drop (i + 1) frames"
    using lt assms(1) by (simp add: Cons_nth_drop_Suc)
  show ?case
  proof (cases "i < n - 1")
    case True
    then obtain g gs where gs: "drop (i + 1) frames = g # gs"
      using assms(1) by (cases "drop (i + 1) frames") auto
    have sp: "spec_concatenated_buffer (drop i frames) =
        ?f @ [SEPARATOR] @ spec_concatenated_buffer (drop (i + 1) frames)"
      using gs by (simp add: dr SEPARATOR_def)
    let ?rest' = "drop (length ?f + 1) rest"
    have lr: "length rest = length ?f + 1 + length (spec_concatenated_buffer (drop (i + 1) frames))"
      using Suc.prems(2) by (simp add: sp)
    have mc: "memcpy (pre @ rest) (length pre) (Some ?f) (length ?f)
        = Some (pre @ ?f @ drop (length ?f) rest)"
      using lr by (intro memcpy_append) simp
    have upd: "(pre @ ?f @ drop (length ?f) rest)[length pre + length ?f := SEPARATOR]
        = (pre @ ?f @ [SEPARATOR]) @ ?rest'"
    proof -
      have "drop (length ?f) rest \<noteq> []" using lr by simp
      then obtain x xs where x: "drop (length ?f) rest = x # xs"
        by (cases "drop (length ?f) rest") auto
      then have "xs = ?rest'"
        by (metis Suc_eq_plus1 drop_Suc drop_drop list.sel(3) tl_drop add.commute)
      then show ?thesis
        using x by (simp add: list_update_append)
    qed
    have step: "join_loop (map Some frames) (map length frames) n i (length pre) (pre @ rest) =
        join_loop (map Some frames) (map length frames) n (i + 1)
          (length (pre @ ?f @ [SEPARATOR])) ((pre @ ?f @ [SEPARATOR]) @ ?rest')"
      using lt True assms(1) lr
      by (subst join_loop.simps) (simp add: mc upd Let_def del: append_assoc)
    have "join_loop (map Some frames) (map length frames) n (i + 1)
          (length (pre @ ?f @ [SEPARATOR])) ((pre @ ?f @ [SEPARATOR]) @ ?rest') =
        Some ((pre @ ?f @ [SEPARATOR]) @ spec_concatenated_buffer (drop (i + 1) frames))"
      using Suc.hyps(2) lt lr by (intro Suc.hyps(1)) auto
    then show ?thesis unfolding step by (simp add: sp)
  next
    case False
    then have last: "i + 1 = n" using lt by simp
    then have dn: "drop (i + 1) frames = []" using assms(1) by simp
    have sp: "spec_concatenated_buffer (drop i frames) = ?f"
      using dn by (simp add: dr)
    have lr: "length rest = length ?f" using Suc.prems(2) by (simp add: sp)
    have mc: "memcpy (pre @ rest) (length pre) (Some ?f) (length ?f) = Some (pre @ ?f)"
      using lr memcpy_append [of ?f rest pre] by simp
    have fin: "join_loop (map Some frames) (map length frames) n n
         (length pre + length ?f) (pre @ ?f) = Some (pre @ ?f)"
      by (subst join_loop.simps) simp
    show ?thesis
      using lt False assms(1) last fin
      by (subst join_loop.simps) (simp add: mc sp Let_def)
  qed
qed

subsection \<open>The joined buffer\<close>

lemma sort_outer_length: "length (sort_outer (length names) 0 names) = length names"
  using sort_outer_mset [of "length names" names 0] by (metis order_refl size_mset)

lemma scan_frames_length:
  assumes "scan_frames pf w frames_dir = (n, namelist)" "0 \<le> n"
  shows "n = int (length namelist)"
proof (cases pf)
  case Posix
  then show ?thesis
    using assms by (auto simp: scan_frames_def scandir_def Let_def split: option.splits)
next
  case Win32
  then show ?thesis
    using assms
    by (auto simp: scan_frames_def scandir_txt_def Let_def sort_outer_length split: option.splits)
qed

lemma map_nth_upt: "map (\<lambda>k. g (xs ! k)) [0..<length xs] = map g xs"
proof -
  have "map g (map ((!) xs) [0..<length xs]) = map g xs"
    by (simp only: map_nth)
  then show ?thesis by (simp only: map_map comp_def)
qed

lemma fresh_buffer_length: "length (fresh_buffer w total_size) = total_size"
  by (simp add: fresh_buffer_def)

lemma concatenate_ok:
  assumes scan: "scan_frames pf w frames_dir = (n, namelist)" and pos: "0 < n"
    and arrays: "malloc w FrameContents (nat n)" "malloc w FrameSizes (nat n)"
    and reads: "\<forall>name \<in> set namelist. readable w (frame_path frames_dir name)"
    and joined: "malloc w Joined (length (spec_concatenated_buffer (frame_set pf w frames_dir)))"
  shows "concatenate pf w frames_dir =
     ([], Inr (length (spec_concatenated_buffer (frame_set pf w frames_dir)),
               spec_concatenated_buffer (frame_set pf w frames_dir)))"
proof -
  let ?fb = "\<lambda>name. frame_bytes w (frame_path frames_dir name)"
  let ?F = "frame_set pf w frames_dir"
  let ?J = "spec_concatenated_buffer ?F"
  have F: "?F = map ?fb namelist" by (simp add: frame_set_def scan)
  have len: "nat n = length namelist"
    using scan_frames_length [OF scan] pos by simp
  have nth: "map (\<lambda>k. g (namelist ! k)) [0..<length namelist] = map g namelist" for g :: "string \<Rightarrow> 'b"
    by (rule map_nth_upt)
  have rd: "\<forall>k<nat n. readable w (frame_path frames_dir (namelist ! k))"
    using reads len by simp
  have lenJ: "length (spec_concatenated_buffer (map ?fb namelist)) =
      (\<Sum>name\<leftarrow>namelist. length (?fb name)) + (length namelist - 1)"
    by (simp add: length_spec_concatenated_buffer comp_def)
  have loop1: "read_loop w frames_dir namelist (nat n) 0
        (0, Some (replicate (nat n) None), Some (replicate (nat n) 0)) [] =
      ([], Inr (length ?J, Some (map Some ?F), Some (map length ?F)))"
  proof -
    have "(\<Sum>k\<leftarrow>[0..<length namelist]. length (?fb (namelist ! k))) = sum_list (map length ?F)"
      using nth [of "\<lambda>name. length (?fb name)"] by (simp add: F comp_def)
    then show ?thesis
      using read_loop_ok [OF rd, of 0 "replicate (nat n) None" "replicate (nat n) 0" 0 "[]"]
        nth [of "\<lambda>name. Some (?fb name)"] nth [of "\<lambda>name. length (?fb name)"]
      by (simp add: len lenJ F comp_def)
  qed
  have loop2: "join_loop (map Some ?F) (map length ?F) (nat n) 0 0 (fresh_buffer w (length ?J)) =
      Some ?J"
    using join_loop_ok [of "nat n" ?F 0 "fresh_buffer w (length ?J)" "[]"]
    by (simp add: F len fresh_buffer_length)
  show ?thesis
    using pos arrays joined
    by (simp add: concatenate_def scan loop1 loop2)
qed

text \<open>
  C1. For a non-empty frame set the joined buffer is
  \<open>frame_1 || 0x01 || frame_2 || ... || 0x01 || frame_N\<close>, and its length, which is
  \<^verbatim>\<open>total_size\<close>, is the sum of the frame lengths plus \<open>N - 1\<close>: one separator between
  two consecutive frames, none before the first or after the last. Whenever the scan
  finds frames, the arrays and the joined buffer are allocated and every frame can be
  read, the two loops of \<^verbatim>\<open>main\<close> end with exactly this buffer; the copies stay inside
  it and the bytes \<^verbatim>\<open>malloc\<close> left in it do not show.
\<close>

theorem joined_buffer_layout:
  assumes "0 < fst (scan_frames pf w frames_dir)"
    and "malloc w FrameContents (nat (fst (scan_frames pf w frames_dir)))"
    and "malloc w FrameSizes (nat (fst (scan_frames pf w frames_dir)))"
    and "\<forall>name \<in> set (snd (scan_frames pf w frames_dir)). readable w (frame_path frames_dir name)"
    and "malloc w Joined (length (spec_concatenated_buffer (frame_set pf w frames_dir)))"
  shows "concatenate pf w frames_dir =
           ([], Inr (sum_list (map length (frame_set pf w frames_dir))
                       + (length (frame_set pf w frames_dir) - 1),
                     spec_concatenated_buffer (frame_set pf w frames_dir)))
       \<and> length (spec_concatenated_buffer (frame_set pf w frames_dir)) =
           sum_list (map length (frame_set pf w frames_dir))
             + (length (frame_set pf w frames_dir) - 1)
       \<and> int (length (frame_set pf w frames_dir)) = fst (scan_frames pf w frames_dir)"
proof -
  obtain n namelist where scan: "scan_frames pf w frames_dir = (n, namelist)"
    by (cases "scan_frames pf w frames_dir")
  have pos: "0 < n" using assms(1) scan by simp
  have "concatenate pf w frames_dir =
     ([], Inr (length (spec_concatenated_buffer (frame_set pf w frames_dir)),
               spec_concatenated_buffer (frame_set pf w frames_dir)))"
    using assms(2-5) by (intro concatenate_ok [OF scan pos]) (simp_all add: scan)
  moreover have "int (length (frame_set pf w frames_dir)) = n"
    using scan_frames_length [OF scan] pos by (simp add: frame_set_def scan)
  ultimately show ?thesis
    by (simp add: length_spec_concatenated_buffer scan)
qed

lemma example_scan_Posix:
  "scan_frames Posix example_world ''frames'' = (2, [''frame10.txt'', ''frame2.txt''])"
proof -
  let ?es = "[\<lparr>d_name = ''frame2.txt'', d_type = DT_REG\<rparr>,
        \<lparr>d_name = ''notes.md'', d_type = DT_REG\<rparr>,
        \<lparr>d_name = ''frame10.txt'', d_type = DT_REG\<rparr>]"
  have o: "opendir example_world ''frames'' = Some ?es"
    by (simp add: example_world_def)
  have c: "\<forall>e \<in> set ?es. c_string (d_name e)" by (simp add: c_string_def)
  show ?thesis
    using scan_frames_Posix [OF o c] by (simp add: filter_frames_def)
qed

lemma example_frame_set_Posix:
  "frame_set Posix example_world ''frames'' = [[0x41, 0x41], [0x42, 0x42]]"
proof -
  have "frame_bytes example_world (frame_path ''frames'' ''frame10.txt'') = [0x41, 0x41]"
    "frame_bytes example_world (frame_path ''frames'' ''frame2.txt'') = [0x42, 0x42]"
    by (simp_all add: frame_bytes_def frame_path_def snprintf_def example_world_def)
  then show ?thesis
    by (simp add: frame_set_def example_scan_Posix)
qed

lemma example_readable:
  "readable example_world (frame_path ''frames'' ''frame10.txt'')"
  "readable example_world (frame_path ''frames'' ''frame2.txt'')"
  by (simp_all add: readable_def frame_path_def snprintf_def example_world_def)

theorem joined_buffer_layout_witness:
  "concatenate Posix example_world ''frames'' = ([], Inr (5, [0x41, 0x41, 0x01, 0x42, 0x42]))"
proof -
  have m: "\<And>site n. malloc example_world site n" by (simp add: example_world_def)
  have "0 < fst (scan_frames Posix example_world ''frames'')"
    by (simp add: example_scan_Posix)
  moreover have "\<forall>name \<in> set (snd (scan_frames Posix example_world ''frames'')).
      readable example_world (frame_path ''frames'' name)"
    by (simp add: example_scan_Posix example_readable)
  ultimately show ?thesis
    using joined_buffer_layout [of Posix example_world "''frames''"] m
    by (simp add: example_frame_set_Posix)
qed

subsection \<open>What a run depends on\<close>

lemma read_file_ReadOk:
  "read_file w path sizes i = (m, ReadOk buf sizes') \<Longrightarrow> readable w path \<and> sizes \<noteq> None"
  by (auto simp: readable_def read_file_def Let_def split: option.splits if_splits)

lemma read_file_cong:
  "fopen_rb w' = fopen_rb w \<Longrightarrow> malloc w' = malloc w \<Longrightarrow>
     read_file w' path sizes i = read_file w path sizes i"
  by (simp add: read_file_def Let_def split: option.splits)

lemma read_loop_cong:
  assumes "fopen_rb w' = fopen_rb w" "malloc w' = malloc w"
  shows "read_loop w' frames_dir namelist n i st msgs = read_loop w frames_dir namelist n i st msgs"
proof (induction "n - i" arbitrary: i st msgs)
  case 0
  then show ?case by (subst (1 2) read_loop.simps) (simp split: prod.splits)
next
  case (Suc d)
  have rf: "\<And>path sizes. read_file w' path sizes i = read_file w path sizes i"
    using assms by (rule read_file_cong)
  have ih: "\<And>st msgs. read_loop w' frames_dir namelist n (Suc i) st msgs =
      read_loop w frames_dir namelist n (Suc i) st msgs"
    using Suc.hyps(2) by (intro Suc.hyps(1)) simp
  show ?case
    by (subst (1 2) read_loop.simps)
       (simp add: rf ih Let_def split: prod.splits read_result.splits option.splits)
qed

lemma read_loop_Inl_status:
  "read_loop w frames_dir namelist n i st msgs = (m, Inl s) \<Longrightarrow> s = Exit 1 \<or> s = Crash"
proof (induction "n - i" arbitrary: i st msgs)
  case 0
  then show ?case by (subst (asm) read_loop.simps) (simp split: prod.splits)
next
  case (Suc d)
  have ih: "\<And>st msgs. read_loop w frames_dir namelist n (Suc i) st msgs = (m, Inl s)
      \<Longrightarrow> s = Exit 1 \<or> s = Crash"
    using Suc.hyps(2) by (intro Suc.hyps(1)) simp_all
  from Suc.prems show ?case
    by (subst (asm) read_loop.simps)
       (auto simp: Let_def dest: ih split: prod.splits read_result.splits option.splits if_splits)
qed

lemma read_loop_Inr:
  assumes "read_loop w frames_dir namelist n i (total_size, contents, sizes) msgs = (m, Inr st)"
  shows "(\<forall>k. i \<le> k \<and> k < n \<longrightarrow> readable w (frame_path frames_dir (namelist ! k)))
       \<and> (i < n \<longrightarrow> contents \<noteq> None \<and> sizes \<noteq> None)"
  using assms
proof (induction "n - i" arbitrary: i total_size contents sizes msgs)
  case 0
  then show ?case by auto
next
  case (Suc d)
  then have lt: "i < n" by simp
  let ?path = "frame_path frames_dir (namelist ! i)"
  obtain m0 r where rf: "read_file w ?path sizes i = (m0, r)"
    by (cases "read_file w ?path sizes i")
  from Suc.prems lt rf obtain buf sizes' cs where
    r: "r = ReadOk buf sizes'" and cs: "contents = Some cs" and
    next_: "read_loop w frames_dir namelist n (i + 1)
        (total_size + sizes' ! i + (if i < n - 1 then 1 else 0), Some (cs[i := Some buf]), Some sizes')
        (msgs @ m0) = (m, Inr st)"
    by (subst (asm) read_loop.simps)
       (auto simp: Let_def split: read_result.splits option.splits if_splits)
  have here: "readable w ?path \<and> sizes \<noteq> None"
    using rf r by (auto dest: read_file_ReadOk)
  have rest: "\<forall>k. i + 1 \<le> k \<and> k < n \<longrightarrow> readable w (frame_path frames_dir (namelist ! k))"
    using Suc.hyps(1) [OF _ next_] Suc.hyps(2) by simp
  have "\<forall>k. i \<le> k \<and> k < n \<longrightarrow> readable w (frame_path frames_dir (namelist ! k))"
  proof (intro allI impI)
    fix k assume "i \<le> k \<and> k < n"
    then show "readable w (frame_path frames_dir (namelist ! k))"
      using here rest by (cases "k = i") auto
  qed
  then show ?case using here cs by simp
qed

lemma read_loop_frames:
  assumes scan: "scan_frames pf w frames_dir = (n, namelist)" and pos: "0 < n"
    and reads: "\<forall>k<nat n. readable w (frame_path frames_dir (namelist ! k))"
  shows "read_loop w frames_dir namelist (nat n) 0
        (0, Some (replicate (nat n) None), Some (replicate (nat n) 0)) [] =
      ([], Inr (length (spec_concatenated_buffer (frame_set pf w frames_dir)),
                Some (map Some (frame_set pf w frames_dir)),
                Some (map length (frame_set pf w frames_dir))))"
proof -
  let ?fb = "\<lambda>name. frame_bytes w (frame_path frames_dir name)"
  let ?F = "frame_set pf w frames_dir"
  have F: "?F = map ?fb namelist" by (simp add: frame_set_def scan)
  have len: "nat n = length namelist"
    using scan_frames_length [OF scan] pos by simp
  have nth: "map (\<lambda>k. g (namelist ! k)) [0..<length namelist] = map g namelist" for g :: "string \<Rightarrow> 'b"
    by (rule map_nth_upt)
  have lenJ: "length (spec_concatenated_buffer (map ?fb namelist)) =
      (\<Sum>name\<leftarrow>namelist. length (?fb name)) + (length namelist - 1)"
    by (simp add: length_spec_concatenated_buffer comp_def)
  have "(\<Sum>k\<leftarrow>[0..<length namelist]. length (?fb (namelist ! k))) = sum_list (map length ?F)"
    using nth [of "\<lambda>name. length (?fb name)"] by (simp add: F comp_def)
  then show ?thesis
    using read_loop_ok [OF reads, of 0 "replicate (nat n) None" "replicate (nat n) 0" 0 "[]"]
      nth [of "\<lambda>name. Some (?fb name)"] nth [of "\<lambda>name. length (?fb name)"]
    by (simp add: len lenJ F comp_def)
qed

lemma concatenate_eq:
  "concatenate pf w frames_dir =
     (case scan_frames pf w frames_dir of (n, namelist) \<Rightarrow>
        if n < 0 then ([FailedToScan frames_dir], Inl (Exit 1))
        else if n = 0 then ([NoFrameFiles frames_dir], Inl (Exit 1))
        else
          (case read_loop w frames_dir namelist (nat n) 0
                  (0, if malloc w FrameContents (nat n) then Some (replicate (nat n) None) else None,
                      if malloc w FrameSizes (nat n) then Some (replicate (nat n) 0) else None) [] of
             (msgs, Inl st) \<Rightarrow> (msgs, Inl st)
           | (msgs, Inr st) \<Rightarrow>
               if \<not> malloc w Joined (length (spec_concatenated_buffer (frame_set pf w frames_dir)))
               then (msgs @ [FailedToAllocateJoined], Inl (Exit 1))
               else (msgs, Inr (length (spec_concatenated_buffer (frame_set pf w frames_dir)),
                                spec_concatenated_buffer (frame_set pf w frames_dir)))))"
proof -
  obtain n namelist where scan: "scan_frames pf w frames_dir = (n, namelist)"
    by (cases "scan_frames pf w frames_dir")
  let ?c0 = "if malloc w FrameContents (nat n) then Some (replicate (nat n) None) else None"
  let ?s0 = "if malloc w FrameSizes (nat n) then Some (replicate (nat n) 0) else None"
  let ?F = "frame_set pf w frames_dir"
  let ?J = "spec_concatenated_buffer ?F"
  obtain msgs r where loop: "read_loop w frames_dir namelist (nat n) 0 (0, ?c0, ?s0) [] = (msgs, r)"
    by (cases "read_loop w frames_dir namelist (nat n) 0 (0, ?c0, ?s0) []")
  show ?thesis
  proof (cases "0 < n")
    case False
    then show ?thesis by (auto simp: concatenate_def scan)
  next
    case pos: True
    show ?thesis
    proof (cases r)
      case (Inl st)
      then show ?thesis using pos loop by (simp add: concatenate_def scan Let_def)
    next
      case (Inr st)
      have inv: "(\<forall>k. k < nat n \<longrightarrow> readable w (frame_path frames_dir (namelist ! k)))
          \<and> (0 < nat n \<longrightarrow> ?c0 \<noteq> None \<and> ?s0 \<noteq> None)"
        using read_loop_Inr [OF loop [unfolded Inr]] by (auto split: if_splits)
      then have c0: "?c0 = Some (replicate (nat n) None)" and s0: "?s0 = Some (replicate (nat n) 0)"
        using pos by (auto split: if_splits)
      have reads: "\<forall>k<nat n. readable w (frame_path frames_dir (namelist ! k))"
        using inv by blast
      have res: "msgs = [] \<and> st = (length ?J, Some (map Some ?F), Some (map length ?F))"
        using read_loop_frames [OF scan pos reads] loop by (simp add: c0 s0 Inr)
      have len: "nat n = length ?F"
        using scan_frames_length [OF scan] pos by (simp add: frame_set_def scan)
      have loop2: "join_loop (map Some ?F) (map length ?F) (nat n) 0 0 (fresh_buffer w (length ?J)) =
          Some ?J"
        using join_loop_ok [of "nat n" ?F 0 "fresh_buffer w (length ?J)" "[]"]
        by (simp add: len fresh_buffer_length)
      show ?thesis
        using pos loop res loop2 by (simp add: concatenate_def scan Let_def Inr)
    qed
  qed
qed

lemma frame_set_cong:
  "scan_frames pf w' frames_dir = scan_frames pf w frames_dir \<Longrightarrow> fopen_rb w' = fopen_rb w \<Longrightarrow>
     frame_set pf w' frames_dir = frame_set pf w frames_dir"
  by (simp add: frame_set_def frame_bytes_def)

lemma concatenate_cong:
  assumes "scan_frames pf w' frames_dir = scan_frames pf w frames_dir"
    and "fopen_rb w' = fopen_rb w" "malloc w' = malloc w"
  shows "concatenate pf w' frames_dir = concatenate pf w frames_dir"
  by (simp only: concatenate_eq assms frame_set_cong [OF assms(1,2)] read_loop_cong [OF assms(2,3)])

lemma concatenate_Inl_status:
  assumes "concatenate pf w frames_dir = (msgs, Inl st)"
  shows "st = Exit 1 \<or> st = Crash"
  using assms unfolding concatenate_eq
  by (auto split: prod.splits if_splits sum.splits dest: read_loop_Inl_status)

lemma compress_cong:
  assumes "malloc w' = malloc w" "compressBound w' = compressBound w"
    and "deflateInit2 w' = deflateInit2 w" "deflate w' = deflate w"
  shows "compress w' total_size joined = compress w total_size joined"
  by (simp add: compress_def assms Let_def)

lemma compress_Inl_status:
  "compress w total_size joined = (m, Inl st) \<Longrightarrow> st = Exit 1"
  by (auto simp: compress_def Let_def split: if_splits prod.splits)

subsection \<open>Runs that end before the output is written\<close>

lemma main_usage:
  "length args \<noteq> 2 \<Longrightarrow>
     main pf w argv0 args = \<lparr>status = Exit 1, err = [Usage argv0], out = [], files = disk w\<rparr>"
  by (simp add: main_def)

lemma main_out: "out (main pf w argv0 args) = []"
  by (simp add: main_def persist_def Let_def split: prod.splits sum.splits option.splits)

lemma main_stops_before_writing:
  assumes "concatenate pf w frames_dir = (msgs, Inl st)"
  shows "main pf w argv0 [frames_dir, output_file] =
           \<lparr>status = st, err = msgs, out = [], files = disk w\<rparr>
       \<and> (st = Exit 1 \<or> st = Crash)"
  using assms concatenate_Inl_status [OF assms] by (simp add: main_def)

lemma main_stops_in_compression:
  assumes "concatenate pf w frames_dir = (msgs, Inr (total_size, joined))"
    and "compress w total_size joined = (m, Inl st)"
  shows "main pf w argv0 [frames_dir, output_file] =
           \<lparr>status = Exit 1, err = msgs @ m, out = [], files = disk w\<rparr>"
  using assms compress_Inl_status [OF assms(2)] by (simp add: main_def)

lemma main_writes:
  assumes "concatenate pf w frames_dir = (msgs, Inr (total_size, joined))"
    and "compress w total_size joined = (m, Inr compressed)"
  shows "main pf w argv0 [frames_dir, output_file] = persist w output_file (msgs @ m) compressed"
  using assms by (simp add: main_def)

lemma scan_frames_update [simp]:
  "scan_frames pf (w\<lparr>malloc := ma\<rparr>) frames_dir = scan_frames pf w frames_dir"
  "scan_frames pf (w\<lparr>heap := h\<rparr>) frames_dir = scan_frames pf w frames_dir"
  "scan_frames pf (w\<lparr>disk := d\<rparr>) frames_dir = scan_frames pf w frames_dir"
  "scan_frames pf (w\<lparr>room := r\<rparr>) frames_dir = scan_frames pf w frames_dir"
  "scan_frames pf (w\<lparr>fopen_wb := fo\<rparr>) frames_dir = scan_frames pf w frames_dir"
  "scan_frames pf (w\<lparr>fopen_rb := f\<rparr>) frames_dir = scan_frames pf w frames_dir"
  by (simp_all add: scan_frames_def split: platform.splits)

lemma example_scan_Win32:
  "scan_frames Win32 example_world ''frames'' = (2, [''frame10.txt'', ''frame2.txt''])"
proof -
  let ?fs = "[\<lparr>dwFileAttributes = 0x20, cFileName = ''frame2.txt''\<rparr>,
        \<lparr>dwFileAttributes = 0x20, cFileName = ''frame10.txt''\<rparr>]"
  have f: "find_files example_world (snprintf 4096 (''frames'' @ [CHR 0x5C] @ ''*.txt'')) = Some ?fs"
    by (simp add: example_world_def snprintf_def)
  have c: "\<forall>fd \<in> set ?fs. c_string (cFileName fd)" by (simp add: c_string_def)
  have "scandir_txt (Some ?fs) = (2, [''frame10.txt'', ''frame2.txt''])"
    using scandir_txt_eq [OF c] by (simp add: FILE_ATTRIBUTE_DIRECTORY_def)
  then show ?thesis by (simp only: scan_frames_def f platform.case)
qed

text \<open>
  C4 holds on the POSIX branch: a directory that can be read and holds no matching
  entry ends the run with status 1, the diagnostic \<open>NoFrameFiles\<close> and no output, while
  a directory that cannot be read gives \<open>FailedToScan\<close>.
\<close>

lemma posix_no_frame_files:
  assumes "opendir w frames_dir = Some entries" "\<forall>e \<in> set entries. filter_frames e = 0"
  shows "main Posix w argv0 [frames_dir, output_file] =
     \<lparr>status = Exit 1, err = [NoFrameFiles frames_dir], out = [], files = disk w\<rparr>"
proof -
  have "filter (\<lambda>e. filter_frames e \<noteq> 0) entries = []"
    using assms(2) by (simp add: filter_empty_conv)
  then have "scan_frames Posix w frames_dir = (0, [])"
    using assms(1) by (simp add: scan_frames_def scandir_def qsort_def)
  then have "concatenate Posix w frames_dir = ([NoFrameFiles frames_dir], Inl (Exit 1))"
    by (simp add: concatenate_def)
  then show ?thesis by (simp add: main_def)
qed

lemma posix_scan_failure:
  assumes "opendir w frames_dir = None"
  shows "main Posix w argv0 [frames_dir, output_file] =
     \<lparr>status = Exit 1, err = [FailedToScan frames_dir], out = [], files = disk w\<rparr>"
proof -
  have "scan_frames Posix w frames_dir = (- 1, [])"
    using assms by (simp add: scan_frames_def scandir_def)
  then have "concatenate Posix w frames_dir = ([FailedToScan frames_dir], Inl (Exit 1))"
    by (simp add: concatenate_def)
  then show ?thesis by (simp add: main_def)
qed

text \<open>
  C4 fails on the Windows branch. \<^verbatim>\<open>FindFirstFileA\<close> returns \<^verbatim>\<open>INVALID_HANDLE_VALUE\<close> both
  when the directory cannot be searched and when the search finds nothing, and
  \<^verbatim>\<open>scandir_txt\<close> returns \<open>-1\<close> for both: a directory that can be searched and holds no
  \<^verbatim>\<open>.txt\<close> entry is reported as \<open>FailedToScan\<close>, exactly as a directory that cannot be
  searched, never as \<open>NoFrameFiles\<close>.
\<close>

theorem windows_empty_directory_is_scan_failure:
  "main Win32 (example_world\<lparr>find_files := \<lambda>pattern. Some []\<rparr>) ''framegen'' [''frames'', ''out.bin'']
     = \<lparr>status = Exit 1, err = [FailedToScan ''frames''], out = [], files = disk example_world\<rparr>
   \<and> main Win32 (example_world\<lparr>find_files := \<lambda>pattern. None\<rparr>) ''framegen'' [''frames'', ''out.bin'']
     = \<lparr>status = Exit 1, err = [FailedToScan ''frames''], out = [], files = disk example_world\<rparr>"
  by (simp add: main_def concatenate_def scan_frames_def scandir_txt_def FindFirstFileA_def)

subsection \<open>Allocation failures\<close>

lemma example_paths:
  "frame_path ''frames'' ''frame10.txt'' = ''frames/frame10.txt''"
  "frame_path ''frames'' ''frame2.txt'' = ''frames/frame2.txt''"
  by (simp_all add: frame_path_def snprintf_def)

lemma example_files:
  "fopen_rb example_world ''frames/frame10.txt'' = Some \<lparr>s_size = 2, s_data = [0x41, 0x41]\<rparr>"
  "fopen_rb example_world ''frames/frame2.txt'' = Some \<lparr>s_size = 2, s_data = [0x42, 0x42]\<rparr>"
  by (simp_all add: example_world_def)

text \<open>
  C9 holds for the two buffers whose allocation \<^verbatim>\<open>main\<close> tests: when \<^verbatim>\<open>malloc\<close> fails for
  the joined buffer or for the compression buffer, the run ends with status 1 after one
  diagnostic and leaves the output alone.
\<close>

lemma joined_allocation_failure:
  assumes "0 < fst (scan_frames pf w frames_dir)"
    and "malloc w FrameContents (nat (fst (scan_frames pf w frames_dir)))"
    and "malloc w FrameSizes (nat (fst (scan_frames pf w frames_dir)))"
    and "\<forall>name \<in> set (snd (scan_frames pf w frames_dir)). readable w (frame_path frames_dir name)"
    and "\<not> malloc w Joined (length (spec_concatenated_buffer (frame_set pf w frames_dir)))"
  shows "main pf w argv0 [frames_dir, output_file] =
     \<lparr>status = Exit 1, err = [FailedToAllocateJoined], out = [], files = disk w\<rparr>"
proof -
  obtain n namelist where scan: "scan_frames pf w frames_dir = (n, namelist)"
    by (cases "scan_frames pf w frames_dir")
  have pos: "0 < n" using assms(1) scan by simp
  have len: "nat n = length namelist"
    using scan_frames_length [OF scan] pos by simp
  have reads: "\<forall>k<nat n. readable w (frame_path frames_dir (namelist ! k))"
    using assms(4) len by (simp add: scan)
  have "concatenate pf w frames_dir = ([FailedToAllocateJoined], Inl (Exit 1))"
    using pos assms(2,3,5) read_loop_frames [OF scan pos reads]
    by (simp add: concatenate_eq scan)
  then show ?thesis by (simp add: main_def)
qed

lemma compression_allocation_failure:
  assumes "concatenate pf w frames_dir = (msgs, Inr (total_size, joined))"
    and "\<not> malloc w Compressed (compressBound w total_size)"
  shows "main pf w argv0 [frames_dir, output_file] =
     \<lparr>status = Exit 1, err = msgs @ [FailedToAllocateCompression], out = [], files = disk w\<rparr>"
  using assms by (simp add: main_def compress_def)

text \<open>
  C9 fails for the other allocations. When \<^verbatim>\<open>malloc\<close> fails in \<^verbatim>\<open>read_file\<close>, the
  function returns \<^verbatim>\<open>NULL\<close> without a word and \<^verbatim>\<open>main\<close> returns 1 without a word: the
  run ends with status 1 and no diagnostic at all. When both \<^verbatim>\<open>calloc\<close> calls fail,
  nothing tests their results and the first store goes through a null pointer.
\<close>

theorem allocation_failures_undetected:
  "main Posix (example_world\<lparr>malloc := \<lambda>site n. site \<noteq> ReadBuffer ''frames/frame10.txt''\<rparr>)
      ''framegen'' [''frames'', ''out.bin'']
     = \<lparr>status = Exit 1, err = [], out = [], files = disk example_world\<rparr>
   \<and> main Posix (example_world\<lparr>malloc := \<lambda>site n. site \<noteq> FrameContents \<and> site \<noteq> FrameSizes\<rparr>)
      ''framegen'' [''frames'', ''out.bin'']
     = \<lparr>status = Crash, err = [], out = [], files = disk example_world\<rparr>"
proof -
  have "concatenate Posix
      (example_world\<lparr>malloc := \<lambda>site n. site \<noteq> ReadBuffer ''frames/frame10.txt''\<rparr>) ''frames''
        = ([], Inl (Exit 1))"
    by (simp add: concatenate_def example_scan_Posix read_loop.simps read_file_def example_paths
        example_files Let_def)
  moreover have "concatenate Posix
      (example_world\<lparr>malloc := \<lambda>site n. site \<noteq> FrameContents \<and> site \<noteq> FrameSizes\<rparr>) ''frames''
        = ([], Inl Crash)"
    by (simp add: concatenate_def example_scan_Posix read_loop.simps read_file_def example_paths
        example_files Let_def)
  ultimately show ?thesis by (simp add: main_def)
qed

text \<open>
  C6 fails for one of the failures it lists. Every failure that \<^verbatim>\<open>main\<close> detects before
  it opens the output ends the run with status 1 and the output untouched (lemmas
  \<open>main_stops_before_writing\<close> and \<open>main_stops_in_compression\<close>). But the allocation
  of \<^verbatim>\<open>frame_sizes\<close> is not tested: when that \<^verbatim>\<open>calloc\<close> fails and the first frame is read,
  \<^verbatim>\<open>read_file\<close> stores the size through the null pointer, and the run does not end with
  status 1.
\<close>

theorem frame_sizes_allocation_failure_crashes:
  "main Posix (example_world\<lparr>malloc := \<lambda>site n. site \<noteq> FrameSizes\<rparr>)
      ''framegen'' [''frames'', ''out.bin'']
     = \<lparr>status = Crash, err = [], out = [], files = disk example_world\<rparr>"
proof -
  have "concatenate Posix (example_world\<lparr>malloc := \<lambda>site n. site \<noteq> FrameSizes\<rparr>) ''frames''
        = ([], Inl Crash)"
    by (simp add: concatenate_def example_scan_Posix read_loop.simps read_file_def example_paths
        example_files Let_def)
  then show ?thesis by (simp add: main_def)
qed

lemma main_status:
  "status (main pf w argv0 args) = Exit 0 \<or> status (main pf w argv0 args) = Exit 1
     \<or> status (main pf w argv0 args) = Crash"
proof (cases "length args = 2")
  case False
  then show ?thesis by (simp add: main_usage)
next
  case True
  then obtain frames_dir output_file where args: "args = [frames_dir, output_file]"
    by (cases args; cases "tl args") auto
  obtain msgs r where c: "concatenate pf w frames_dir = (msgs, r)"
    by (cases "concatenate pf w frames_dir")
  show ?thesis
  proof (cases r)
    case (Inl st)
    then show ?thesis using main_stops_before_writing [of pf w frames_dir msgs st] c args by auto
  next
    case (Inr tj)
    obtain total_size joined where tj: "tj = (total_size, joined)" by (cases tj)
    obtain m k where k: "compress w total_size joined = (m, k)"
      by (cases "compress w total_size joined")
    show ?thesis
    proof (cases k)
      case (Inl st)
      then show ?thesis
        using main_stops_in_compression [of pf w frames_dir msgs total_size joined m st] c k args
        by (simp add: Inr tj)
    next
      case (Inr compressed)
      then show ?thesis
        using main_writes [of pf w frames_dir msgs total_size joined m compressed] c k args
        by (auto simp: \<open>r = Inr tj\<close> tj persist_def Let_def split: option.splits prod.splits)
    qed
  qed
qed

text \<open>
  C7 holds for the arity, for the success and for the failures \<^verbatim>\<open>main\<close> detects, and
  nothing is ever written to standard output (lemmas \<open>main_usage\<close>, \<open>main_out\<close>,
  \<open>main_status\<close>). It fails for the allocation of \<^verbatim>\<open>frame_contents\<close>, which is not
  tested: when that \<^verbatim>\<open>calloc\<close> fails, \<^verbatim>\<open>frame_contents[0] = read_file(...)\<close> stores through
  the null pointer and the run does not end with status 1.
\<close>

theorem frame_contents_allocation_failure_crashes:
  "main Win32 (example_world\<lparr>malloc := \<lambda>site n. site \<noteq> FrameContents\<rparr>)
      ''framegen'' [''frames'', ''out.bin'']
     = \<lparr>status = Crash, err = [], out = [], files = disk example_world\<rparr>"
proof -
  have "concatenate Win32 (example_world\<lparr>malloc := \<lambda>site n. site \<noteq> FrameContents\<rparr>) ''frames''
        = ([], Inl Crash)"
    by (simp add: concatenate_def example_scan_Win32 read_loop.simps read_file_def example_paths
        example_files Let_def)
  then show ?thesis by (simp add: main_def)
qed

subsection \<open>The output file\<close>

lemma concatenate_update [simp]:
  "concatenate pf (w\<lparr>room := r\<rparr>) frames_dir = concatenate pf w frames_dir"
  "concatenate pf (w\<lparr>fopen_wb := fo\<rparr>) frames_dir = concatenate pf w frames_dir"
  "concatenate pf (w\<lparr>disk := d\<rparr>) frames_dir = concatenate pf w frames_dir"
  "concatenate pf (w\<lparr>heap := h\<rparr>) frames_dir = concatenate pf w frames_dir"
  by (rule concatenate_cong; simp)+

lemma example_concatenate:
  "concatenate Posix example_world ''frames'' = ([], Inr (5, [0x41, 0x41, 0x01, 0x42, 0x42]))"
proof -
  have m: "\<And>site n. malloc example_world site n" by (simp add: example_world_def)
  have "\<forall>name \<in> set [''frame10.txt'', ''frame2.txt''].
      readable example_world (frame_path ''frames'' name)"
    by (simp add: example_readable)
  then show ?thesis
    using concatenate_ok [OF example_scan_Posix] m
    by (simp add: example_frame_set_Posix)
qed

lemma example_compress:
  "compress example_world 5 [0x41, 0x41, 0x01, 0x42, 0x42] = ([], Inr [0x41, 0x41, 0x01, 0x42, 0x42])"
  "compress (example_world\<lparr>room := r\<rparr>) 5 [0x41, 0x41, 0x01, 0x42, 0x42]
     = ([], Inr [0x41, 0x41, 0x01, 0x42, 0x42])"
  by (simp_all add: compress_def example_world_def to_uInt_def echo_deflate_def Z_OK_def
      Z_STREAM_END_def Let_def)

lemma fwrite_short:
  assumes "fst (fwrite keeps space data) < length data"
  shows "fwrite keeps space data = (space, take space data, []) \<and> space < length data"
proof -
  let ?through = "length data - keeps (length data)"
  have "space < ?through"
    using assms by (auto simp: fwrite_def Let_def split: if_splits)
  then show ?thesis by (simp add: fwrite_def Let_def)
qed

lemma fflush_fwrite:
  "fwrite keeps space data = (written, device, buffer) \<Longrightarrow>
     fflush space device buffer = take space data"
proof -
  let ?through = "length data - keeps (length data)"
  assume w: "fwrite keeps space data = (written, device, buffer)"
  show ?thesis
  proof (cases "space < ?through")
    case True
    then show ?thesis using w by (auto simp: fwrite_def fflush_def Let_def)
  next
    case False
    then have d: "device = take ?through data" and b: "buffer = drop ?through data"
      using w by (auto simp: fwrite_def Let_def)
    have "take space data = take (?through + (space - ?through)) data"
      using False by simp
    also have "\<dots> = take ?through data @ take (space - ?through) (drop ?through data)"
      by (rule take_add)
    finally show ?thesis
      by (simp add: fflush_def d b)
  qed
qed

lemma files_persist:
  "fopen_wb w output_file = Some keeps \<Longrightarrow>
     files (persist w output_file msgs compressed) =
       (disk w)(output_file \<mapsto> take (room w output_file) compressed)"
  by (auto simp: persist_def Let_def dest: fflush_fwrite split: prod.splits)

text \<open>
  What \<^verbatim>\<open>main\<close> does not see. When \<^verbatim>\<open>fwrite\<close> returns the full count, \<^verbatim>\<open>main\<close> returns 0
  without a diagnostic, and the file holds what the device took. Bytes that were still
  in the stream's buffer and that the device refused at \<^verbatim>\<open>fclose\<close> are lost without a
  word: in the example, on a device that takes 3 bytes, the run ends with status 0 and a
  file of 3 of the 5 bytes.
\<close>

lemma full_count_returns_zero:
  assumes "concatenate pf w frames_dir = (msgs, Inr (total_size, joined))"
    and "compress w total_size joined = (m, Inr compressed)"
    and "fopen_wb w output_file = Some keeps"
    and "fst (fwrite keeps (room w output_file) compressed) = length compressed"
  shows "main pf w argv0 [frames_dir, output_file] =
     \<lparr>status = Exit 0, err = msgs @ m, out = [],
      files = (disk w)(output_file \<mapsto> take (room w output_file) compressed)\<rparr>"
proof -
  obtain written device buffer where
    fw: "fwrite keeps (room w output_file) compressed = (written, device, buffer)"
    by (cases "fwrite keeps (room w output_file) compressed")
  have "written = length compressed" using assms(4) fw by simp
  then show ?thesis
    using assms(1-3) fw fflush_fwrite [OF fw]
    by (simp add: main_def persist_def Let_def)
qed

lemma buffered_bytes_lost_silently:
  "main Posix (example_world\<lparr>room := \<lambda>path. 3\<rparr>) ''framegen'' [''frames'', ''out.bin''] =
     \<lparr>status = Exit 0, err = [], out = [],
      files = (disk example_world)(''out.bin'' \<mapsto> [0x41, 0x41, 0x01])\<rparr>"
proof -
  let ?w = "example_world\<lparr>room := \<lambda>path. 3\<rparr>"
  have c: "concatenate Posix ?w ''frames'' = ([], Inr (5, [0x41, 0x41, 0x01, 0x42, 0x42]))"
    by (simp add: example_concatenate)
  have k: "compress ?w 5 [0x41, 0x41, 0x01, 0x42, 0x42] = ([], Inr [0x41, 0x41, 0x01, 0x42, 0x42])"
    by (rule example_compress)
  have o: "fopen_wb ?w ''out.bin'' = Some (\<lambda>n. n mod 4096)" by (simp add: example_world_def)
  have f: "fst (fwrite (\<lambda>n. n mod 4096) (room ?w ''out.bin'') [0x41, 0x41, 0x01, 0x42, 0x42 :: byte])
      = length [0x41, 0x41, 0x01, 0x42, 0x42 :: byte]"
    by (simp add: fwrite_def)
  show ?thesis
    using full_count_returns_zero [OF c k o f, of "''framegen''"] by simp
qed

text \<open>
  C10. When the write of the compressed bytes transfers fewer bytes than there are
  (\<^verbatim>\<open>fwrite\<close> returns less than \<^verbatim>\<open>compressed_size\<close>), the run ends with status 1 and the
  diagnostic \<open>FailedToWrite\<close>, and the output file, which \<^verbatim>\<open>fopen(output_file, "wb")\<close>
  created or cut to length 0 whatever it held before, stays on the disk and holds
  exactly the bytes that were transferred: a proper prefix of the compressed bytes.
\<close>

theorem short_write_leaves_prefix:
  assumes "concatenate pf w frames_dir = (msgs, Inr (total_size, joined))"
    and "compress w total_size joined = (m, Inr compressed)"
    and "fopen_wb w output_file = Some keeps"
    and "fst (fwrite keeps (room w output_file) compressed) < length compressed"
  shows "main pf w argv0 [frames_dir, output_file] =
     \<lparr>status = Exit 1, err = msgs @ m @ [FailedToWrite], out = [],
      files = (disk w)(output_file \<mapsto>
        take (fst (fwrite keeps (room w output_file) compressed)) compressed)\<rparr>"
proof -
  have fw: "fwrite keeps (room w output_file) compressed =
      (room w output_file, take (room w output_file) compressed, [])"
    and lt: "room w output_file < length compressed"
    using fwrite_short [OF assms(4)] by simp_all
  show ?thesis
    using assms(1-3) lt by (simp add: main_def persist_def Let_def fw fflush_def)
qed

theorem short_write_leaves_prefix_witness:
  "main Posix (example_world\<lparr>fopen_wb := \<lambda>path. Some (\<lambda>n. n mod 2), room := \<lambda>path. 3,
       disk := \<lambda>path. if path = ''out.bin'' then Some [0x07, 0x07, 0x07, 0x07] else None\<rparr>)
     ''framegen'' [''frames'', ''out.bin''] =
     \<lparr>status = Exit 1, err = [FailedToWrite], out = [],
      files = (\<lambda>path. if path = ''out.bin'' then Some [0x41, 0x41, 0x01] else None)\<rparr>"
proof -
  let ?w = "example_world\<lparr>fopen_wb := \<lambda>path. Some (\<lambda>n. n mod 2), room := \<lambda>path. 3,
       disk := \<lambda>path. if path = ''out.bin'' then Some [0x07, 0x07, 0x07, 0x07] else None\<rparr>"
  have c: "concatenate Posix ?w ''frames'' = ([], Inr (5, [0x41, 0x41, 0x01, 0x42, 0x42]))"
    by (simp add: example_concatenate)
  have k: "compress ?w 5 [0x41, 0x41, 0x01, 0x42, 0x42] = ([], Inr [0x41, 0x41, 0x01, 0x42, 0x42])"
    by (simp add: compress_def example_world_def to_uInt_def echo_deflate_def Z_OK_def
      Z_STREAM_END_def Let_def)
  have o: "fopen_wb ?w ''out.bin'' = Some (\<lambda>n. n mod 2)" by simp
  have r: "fst (fwrite (\<lambda>n. n mod 2) (room ?w ''out.bin'') [0x41, 0x41, 0x01, 0x42, 0x42 :: byte])
      < length [0x41, 0x41, 0x01, 0x42, 0x42 :: byte]"
    by (simp add: fwrite_def)
  show ?thesis
    using short_write_leaves_prefix [OF c k o r, of "''framegen''"]
    by (auto simp: fwrite_def fun_eq_iff)
qed

subsection \<open>The compression\<close>

lemma concatenate_Inr:
  assumes "concatenate pf w frames_dir = (msgs, Inr (total_size, joined))"
  shows "joined = spec_concatenated_buffer (frame_set pf w frames_dir) \<and> total_size = length joined"
  using assms unfolding concatenate_eq
  by (auto split: prod.splits if_splits sum.splits)

lemma raw_deflate_parameters:
  "raw_deflate = \<lparr>level = - 1, zmethod = 8, windowBits = - 15, memLevel = 8, strategy = 0\<rparr>"
  by (simp add: raw_deflate_def Z_DEFAULT_COMPRESSION_def Z_DEFLATED_def MAX_WBITS_def
      Z_DEFAULT_STRATEGY_def)

text \<open>
  C5 holds for a joined buffer shorter than \<open>2 ^ 32\<close> bytes: a run that ends with status
  0 has initialised zlib with the raw-DEFLATE parameters (default level, window bits
  \<open>-15\<close>, default strategy), has handed it the whole joined buffer and has passed to
  \<^verbatim>\<open>fwrite\<close> exactly the bytes for which zlib reported the end of the stream; the file
  holds them as far as the device took them. That these bytes inflate to the joined
  buffer is then zlib's contract, not this program's.
\<close>

lemma output_is_deflate_of_joined:
  assumes "concatenate pf w frames_dir = (msgs, Inr (total_size, joined))"
    and "total_size < 2 ^ 32"
    and "status (main pf w argv0 [frames_dir, output_file]) = Exit 0"
  shows "\<exists>compressed.
      deflateInit2 w raw_deflate = Z_OK
    \<and> deflate w raw_deflate Z_FINISH joined (to_uInt (compressBound w total_size))
        = (Z_STREAM_END, compressed)
    \<and> files (main pf w argv0 [frames_dir, output_file]) output_file
        = Some (take (room w output_file) compressed)"
proof -
  have len: "total_size = length joined"
    using concatenate_Inr [OF assms(1)] by simp
  then have whole: "take (to_uInt total_size) joined = joined"
    using assms(2) by (simp add: to_uInt_def)
  obtain ret compressed where
    d: "deflate w raw_deflate Z_FINISH joined (to_uInt (compressBound w total_size)) = (ret, compressed)"
    by (cases "deflate w raw_deflate Z_FINISH joined (to_uInt (compressBound w total_size))")
  have st: "deflateInit2 w raw_deflate = Z_OK \<and> ret = Z_STREAM_END \<and>
      main pf w argv0 [frames_dir, output_file] = persist w output_file msgs compressed \<and>
      fopen_wb w output_file \<noteq> None"
    using assms(1,3) d whole
    by (auto simp: main_def compress_def persist_def Let_def split: if_splits option.splits)
  then obtain keeps where "fopen_wb w output_file = Some keeps" by auto
  then have "files (persist w output_file msgs compressed) output_file
      = Some (take (room w output_file) compressed)"
    by (simp add: files_persist)
  then show ?thesis using st d by simp
qed

text \<open>
  C5 fails for a joined buffer of \<open>2 ^ 32\<close> bytes or more. \<^verbatim>\<open>stream.avail_in = total_size\<close>
  stores a \<^verbatim>\<open>size_t\<close> in the 32-bit \<^verbatim>\<open>avail_in\<close>. One frame of \<open>2 ^ 32\<close> bytes gives
  \<^verbatim>\<open>total_size\<close> \<open>= 2 ^ 32\<close> and \<^verbatim>\<open>avail_in\<close> \<open>= 0\<close>: zlib is handed no input, reports the end of
  the stream, and the run ends with status 0 and an output file that is the compressed
  form of the empty buffer (with the copying engine of the example: no byte at all), not
  of the joined buffer.
\<close>

theorem four_gib_frame_is_not_compressed:
  "concatenate Posix
     (example_world\<lparr>opendir := \<lambda>dir. Some [\<lparr>d_name = ''frame.txt'', d_type = DT_REG\<rparr>],
        fopen_rb := \<lambda>path. Some \<lparr>s_size = 4294967296, s_data = replicate 4294967296 0x41\<rparr>\<rparr>)
     ''frames'' = ([], Inr (4294967296, replicate 4294967296 0x41))
   \<and> main Posix
     (example_world\<lparr>opendir := \<lambda>dir. Some [\<lparr>d_name = ''frame.txt'', d_type = DT_REG\<rparr>],
        fopen_rb := \<lambda>path. Some \<lparr>s_size = 4294967296, s_data = replicate 4294967296 0x41\<rparr>\<rparr>)
     ''framegen'' [''frames'', ''out.bin'']
     = \<lparr>status = Exit 0, err = [], out = [], files = (disk example_world)(''out.bin'' \<mapsto> [])\<rparr>"
proof -
  let ?w = "example_world\<lparr>opendir := \<lambda>dir. Some [\<lparr>d_name = ''frame.txt'', d_type = DT_REG\<rparr>],
        fopen_rb := \<lambda>path. Some \<lparr>s_size = 4294967296, s_data = replicate 4294967296 0x41\<rparr>\<rparr>"
  let ?frame = "replicate 4294967296 (0x41 :: byte)"
  have o: "opendir ?w ''frames'' = Some [\<lparr>d_name = ''frame.txt'', d_type = DT_REG\<rparr>]"
    by simp
  have cs: "\<forall>e \<in> set [\<lparr>d_name = ''frame.txt'', d_type = DT_REG\<rparr>]. c_string (d_name e)"
    by (simp add: c_string_def)
  have scan: "scan_frames Posix ?w ''frames'' = (1, [''frame.txt''])"
    using scan_frames_Posix [OF o cs] by (simp add: filter_frames_def)
  have fs: "frame_set Posix ?w ''frames'' = [?frame]"
    using scan by (simp add: frame_set_def frame_bytes_def)
  have rd: "\<forall>name \<in> set [''frame.txt'']. readable ?w (frame_path ''frames'' name)"
    by (simp add: readable_def example_world_def)
  have m: "\<And>site n. malloc ?w site n" by (simp add: example_world_def)
  have c: "concatenate Posix ?w ''frames'' = ([], Inr (4294967296, ?frame))"
    using concatenate_ok [OF scan _ _ _ rd] m by (simp add: fs)
  have u: "to_uInt 4294967296 = 0" "to_uInt 4294967309 = 13"
    by (simp_all add: to_uInt_def)
  have k: "compress ?w 4294967296 ?frame = ([], Inr [])"
    by (simp add: compress_def example_world_def u echo_deflate_def Z_OK_def Z_STREAM_END_def
        Let_def)
  have "persist ?w ''out.bin'' [] [] =
      \<lparr>status = Exit 0, err = [], out = [], files = (disk example_world)(''out.bin'' \<mapsto> [])\<rparr>"
    by (simp add: persist_def example_world_def fwrite_def fflush_def)
  then show ?thesis
    using c k by (simp add: main_def)
qed

subsection \<open>Determinism\<close>

lemma scan_frames_same_entries:
  assumes "same_entries (opendir w frames_dir) (opendir w' frames_dir)"
    and "same_entries (find_files w (snprintf 4096 (frames_dir @ [CHR 0x5C] @ ''*.txt'')))
           (find_files w' (snprintf 4096 (frames_dir @ [CHR 0x5C] @ ''*.txt'')))"
    and "c_string_names w frames_dir"
  shows "scan_frames pf w' frames_dir = scan_frames pf w frames_dir"
proof (cases pf)
  case Posix
  show ?thesis
  proof (cases "opendir w frames_dir")
    case None
    then have "opendir w' frames_dir = None"
      using assms(1) by (simp add: same_entries_def split: option.splits)
    then show ?thesis using None Posix by (simp add: scan_frames_def)
  next
    case (Some entries)
    then obtain entries' where o': "opendir w' frames_dir = Some entries'"
      and m: "mset entries' = mset entries"
      using assms(1) by (auto simp: same_entries_def split: option.splits)
    have cs: "\<forall>e \<in> set entries. c_string (d_name e)"
      using assms(3) Some by (simp add: c_string_names_def list_all_iff)
    show ?thesis
      unfolding Posix using Some o' m cs by (rule scan_frames_Posix_perm)
  qed
next
  case Win32
  let ?pattern = "snprintf 4096 (frames_dir @ [CHR 0x5C] @ ''*.txt'')"
  show ?thesis
  proof (cases "find_files w ?pattern")
    case None
    then have "find_files w' ?pattern = None"
      using assms(2) by (simp add: same_entries_def split: option.splits)
    then show ?thesis using None Win32 by (simp add: scan_frames_def)
  next
    case (Some found)
    then obtain found' where f': "find_files w' ?pattern = Some found'"
      and m: "mset found' = mset found"
      using assms(2) by (auto simp: same_entries_def split: option.splits)
    have cs: "\<forall>fd \<in> set found. c_string (cFileName fd)"
      using assms(3) Some by (simp add: c_string_names_def list_all_iff)
    show ?thesis
      using Some f' scandir_txt_perm [OF m cs] Win32 by (simp add: scan_frames_def)
  qed
qed

text \<open>
  C8. The output is a function of the directory's contents. Take a second run with the
  same arguments in a world with the same directory entries, the same files and the
  same behaviour of the allocator, of zlib and of the output device; the directory may
  yield its entries in another order, \<^verbatim>\<open>malloc\<close> may return buffers with other bytes in
  them, the disk may hold other output files. Then the second run ends with the same
  status and the same diagnostics, and when the first run succeeds both leave the same
  bytes in the output file. If the second run starts from the disk the first run left,
  it leaves that disk as it is: the two output files are byte-identical.
\<close>

theorem output_is_deterministic:
  assumes "same_entries (opendir w frames_dir) (opendir w' frames_dir)"
    and "same_entries (find_files w (snprintf 4096 (frames_dir @ [CHR 0x5C] @ ''*.txt'')))
           (find_files w' (snprintf 4096 (frames_dir @ [CHR 0x5C] @ ''*.txt'')))"
    and "c_string_names w frames_dir"
    and "fopen_rb w' = fopen_rb w" and "malloc w' = malloc w"
    and "compressBound w' = compressBound w" and "deflateInit2 w' = deflateInit2 w"
    and "deflate w' = deflate w"
    and "fopen_wb w' = fopen_wb w" and "room w' = room w"
  shows "status (main pf w' argv0 [frames_dir, output_file])
           = status (main pf w argv0 [frames_dir, output_file])
       \<and> err (main pf w' argv0 [frames_dir, output_file])
           = err (main pf w argv0 [frames_dir, output_file])
       \<and> (status (main pf w argv0 [frames_dir, output_file]) = Exit 0 \<longrightarrow>
            files (main pf w' argv0 [frames_dir, output_file]) output_file
              = files (main pf w argv0 [frames_dir, output_file]) output_file)
       \<and> (disk w' = files (main pf w argv0 [frames_dir, output_file]) \<longrightarrow>
            main pf w' argv0 [frames_dir, output_file]
              = main pf w argv0 [frames_dir, output_file])"
proof -
  have scan: "scan_frames pf w' frames_dir = scan_frames pf w frames_dir"
    using assms(1-3) by (rule scan_frames_same_entries)
  have c: "concatenate pf w' frames_dir = concatenate pf w frames_dir"
    using scan assms(4,5) by (rule concatenate_cong)
  have k: "\<And>total_size joined. compress w' total_size joined = compress w total_size joined"
    using assms(5-8) by (rule compress_cong)
  obtain msgs r where cr: "concatenate pf w frames_dir = (msgs, r)"
    by (cases "concatenate pf w frames_dir")
  show ?thesis
  proof (cases r)
    case (Inl st)
    have "st \<noteq> Exit 0"
      using concatenate_Inl_status [OF cr [unfolded Inl]] by auto
    then show ?thesis
      using c cr Inl by (simp add: main_def)
  next
    case (Inr tj)
    obtain total_size joined where tj: "tj = (total_size, joined)" by (cases tj)
    obtain m kr where kr: "compress w total_size joined = (m, kr)"
      by (cases "compress w total_size joined")
    show ?thesis
    proof (cases kr)
      case (Inl st)
      have "st = Exit 1" using compress_Inl_status [OF kr [unfolded Inl]] .
      then show ?thesis
        using c cr k kr Inl \<open>r = Inr tj\<close> tj by (simp add: main_def)
    next
      case compressed: (Inr compressed)
      have r: "main pf w argv0 [frames_dir, output_file]
          = persist w output_file (msgs @ m) compressed"
        using cr kr compressed Inr tj by (simp add: main_def)
      have r': "main pf w' argv0 [frames_dir, output_file]
          = persist w' output_file (msgs @ m) compressed"
        using c cr k kr compressed Inr tj by (simp add: main_def)
      show ?thesis
        unfolding r r' using assms(9,10)
        by (auto simp: persist_def Let_def split: option.splits prod.splits)
    qed
  qed
qed

lemma example_main:
  "main Posix example_world ''framegen'' [''frames'', ''out.bin''] =
     \<lparr>status = Exit 0, err = [], out = [],
      files = (disk example_world)(''out.bin'' \<mapsto> [0x41, 0x41, 0x01, 0x42, 0x42])\<rparr>"
proof -
  have "persist example_world ''out.bin'' [] [0x41, 0x41, 0x01, 0x42, 0x42] =
     \<lparr>status = Exit 0, err = [], out = [],
      files = (disk example_world)(''out.bin'' \<mapsto> [0x41, 0x41, 0x01, 0x42, 0x42])\<rparr>"
    by (simp add: persist_def example_world_def fwrite_def fflush_def)
  then show ?thesis
    by (simp add: main_def example_concatenate example_compress)
qed

theorem output_is_deterministic_witness:
  "main Posix
     (example_world
        \<lparr>opendir := \<lambda>dir. Some
           [\<lparr>d_name = ''notes.md'', d_type = DT_REG\<rparr>,
            \<lparr>d_name = ''frame10.txt'', d_type = DT_REG\<rparr>,
            \<lparr>d_name = ''frame2.txt'', d_type = DT_REG\<rparr>],
         heap := \<lambda>a. 0,
         disk := files (main Posix example_world ''framegen'' [''frames'', ''out.bin''])\<rparr>)
     ''framegen'' [''frames'', ''out.bin'']
     = main Posix example_world ''framegen'' [''frames'', ''out.bin'']
   \<and> status (main Posix example_world ''framegen'' [''frames'', ''out.bin'']) = Exit 0
   \<and> files (main Posix example_world ''framegen'' [''frames'', ''out.bin'']) ''out.bin''
       = Some [0x41, 0x41, 0x01, 0x42, 0x42]"
proof -
  let ?w' = "example_world
        \<lparr>opendir := \<lambda>dir. Some
           [\<lparr>d_name = ''notes.md'', d_type = DT_REG\<rparr>,
            \<lparr>d_name = ''frame10.txt'', d_type = DT_REG\<rparr>,
            \<lparr>d_name = ''frame2.txt'', d_type = DT_REG\<rparr>],
         heap := \<lambda>a. 0,
         disk := files (main Posix example_world ''framegen'' [''frames'', ''out.bin''])\<rparr>"
  have h1: "same_entries (opendir example_world ''frames'') (opendir ?w' ''frames'')"
    by (simp add: same_entries_def example_world_def)
  have h2: "same_entries
      (find_files example_world (snprintf 4096 (''frames'' @ [CHR 0x5C] @ ''*.txt'')))
      (find_files ?w' (snprintf 4096 (''frames'' @ [CHR 0x5C] @ ''*.txt'')))"
    by (simp add: same_entries_def example_world_def snprintf_def)
  have h3: "c_string_names example_world ''frames''"
    by (simp add: c_string_names_def example_world_def snprintf_def c_string_def)
  have "disk ?w' = files (main Posix example_world ''framegen'' [''frames'', ''out.bin''])"
    by simp
  then have "main Posix ?w' ''framegen'' [''frames'', ''out.bin'']
      = main Posix example_world ''framegen'' [''frames'', ''out.bin'']"
    using output_is_deterministic [OF h1 h2 h3, of Posix "''framegen''" "''out.bin''"]
    by simp
  then show ?thesis
    by (simp add: example_main)
qed

subsection \<open>Entries that are not selected\<close>




text \<open>
  Two facts about the Windows branch that shape the amended claim. \<^verbatim>\<open>scandir_txt\<close> tests
  no name itself: which names end with \<^verbatim>\<open>.txt\<close> is left to the system's search for the
  pattern, and whatever the search yields is kept unless it is a directory. And a
  directory that the search yields is skipped, but not without trace: a search that
  yields only a subdirectory ends with \<open>NoFrameFiles\<close>, a search that yields nothing
  with \<open>FailedToScan\<close>; the exit status and the files are the same.
\<close>

lemma windows_keeps_what_the_search_yields:
  "scandir_txt (Some [\<lparr>dwFileAttributes = 0x20, cFileName = ''A.TXT''\<rparr>]) = (1, [''A.TXT''])"
  by (simp add: scandir_txt_def FindFirstFileA_def FILE_ATTRIBUTE_DIRECTORY_def sort_outer.simps)

lemma windows_lone_subdirectory:
  "main Win32
     (example_world\<lparr>find_files := \<lambda>pattern. Some [\<lparr>dwFileAttributes = 0x10, cFileName = ''sub.txt''\<rparr>]\<rparr>)
     ''framegen'' [''frames'', ''out.bin'']
     = \<lparr>status = Exit 1, err = [NoFrameFiles ''frames''], out = [], files = disk example_world\<rparr>"
  by (simp add: main_def concatenate_def scan_frames_def scandir_txt_def FindFirstFileA_def
      FILE_ATTRIBUTE_DIRECTORY_def sort_outer.simps)



end
